theory Spec2Isabelle
  imports Main "HOL-Library.AList" "HOL-Library.Sublist"
begin

section \<open>The room/session broker of SocketContext.tsx\<close>

text \<open>
  The development follows \<^verbatim>\<open>src/contexts/SocketContext.tsx\<close>: the mock socket built by
  \<^verbatim>\<open>createMockSocket\<close> (the Event Channel), and the operations of \<^verbatim>\<open>SocketProvider\<close>
  (the Session Facade). The module \<^verbatim>\<open>@/lib/socket-mock\<close> that the file imports as
  \<^verbatim>\<open>mockSocketServer\<close> (Room Registry, Broadcast Router, Persistence Store) is not among the
  sources; its operations are modelled from the specification and marked as such.
\<close>

subsection \<open>Values\<close>

type_synonym client_id = string
type_synonym room_id = string

text \<open>
  Acknowledgement callbacks are closures of the facade. \<open>CreateAck p t\<close> is the arrow function
  passed to \<^verbatim>\<open>socket.emit('create-room', ...)\<close> by the request with promise \<open>p\<close> and timeout
  handle \<open>t\<close>; \<open>JoinAck p t r\<close> the one passed with \<^verbatim>\<open>'join-room'\<close> for room code \<open>r\<close>.
  Any other function value is opaque.
\<close>

datatype callback = CreateAck nat nat | JoinAck nat nat room_id | AppCallback nat

datatype jsval =
    JUndefined
  | JNull
  | JBool bool
  | JStr string
  | JObj "(string \<times> jsval) list"
  | JFun callback

subsection \<open>Room Registry and Persistence Store\<close>

record room =
  members :: "client_id list"
  createdAt :: nat

type_synonym snapshot = "(room_id \<times> room) list"

record policy =
  maxMembers :: nat
  isExpired :: "nat \<Rightarrow> room \<Rightarrow> bool"

datatype signal = PlayerJoined room_id client_id | PlayerLeft room_id client_id

record registry =
  rooms :: snapshot
  clientRooms :: "client_id \<rightharpoonup> room_id"
  store :: "snapshot option"
  pendingAcks :: "client_id \<times> string \<rightharpoonup> callback"

definition initialRegistry :: registry where
  "initialRegistry =
     \<lparr>rooms = [], clientRooms = Map.empty, store = None, pendingAcks = Map.empty\<rparr>"

text \<open>
  Modelled from the spec: the Persistence Store of \<^verbatim>\<open>socket-mock\<close> (section 4.4). The store
  keeps the snapshot of the most recent \<open>save\<close>; \<open>load\<close> returns it, and the empty snapshot
  when nothing was saved.
\<close>

definition save :: "snapshot \<Rightarrow> registry \<Rightarrow> registry" where
  "save s reg = reg\<lparr>store := Some s\<rparr>"

definition load :: "registry \<Rightarrow> snapshot" where
  "load reg = (case store reg of None \<Rightarrow> [] | Some s \<Rightarrow> s)"

definition persist :: "registry \<Rightarrow> registry" where
  "persist reg = save (rooms reg) reg"

text \<open>
  Modelled from the spec: the Membership Index is a mapping derived from the rooms' member
  lists (section 3): a client's room is the first room of the snapshot that lists it.
\<close>

definition deriveIndex :: "snapshot \<Rightarrow> client_id \<rightharpoonup> room_id" where
  "deriveIndex s c = map_option fst (find (\<lambda>(r, rm). c \<in> set (members rm)) s)"

text \<open>
  Modelled from the spec: \<^verbatim>\<open>mockSocketServer.loadPersistentRooms\<close>, the reconciliation of
  the in-memory registry with the persisted snapshot (sections 3 and 4.2).
\<close>

definition loadPersistentRooms :: "registry \<Rightarrow> registry" where
  "loadPersistentRooms reg = reg\<lparr>rooms := load reg, clientRooms := deriveIndex (load reg)\<rparr>"

text \<open>Modelled from the spec: the pure reads of section 4.2.\<close>

definition getClientsInRoom :: "registry \<Rightarrow> room_id \<Rightarrow> client_id list" where
  "getClientsInRoom reg r = (case map_of (rooms reg) r of None \<Rightarrow> [] | Some rm \<Rightarrow> members rm)"

definition getRoomForClient :: "registry \<Rightarrow> client_id \<Rightarrow> room_id option" where
  "getRoomForClient reg c = clientRooms reg c"

text \<open>Modelled from the spec: \<open>roomExists\<close> reconciles from the store before answering.\<close>

definition roomExists :: "registry \<Rightarrow> room_id \<Rightarrow> bool \<times> registry" where
  "roomExists reg r =
     (let reg' = loadPersistentRooms reg in (map_of (rooms reg') r \<noteq> None, reg'))"

text \<open>
  Modelled from the spec: removal of a client from the room it occupies, shared by
  \<open>leaveRoom\<close> and by a successful \<open>joinRoom\<close>. A room left without members is removed.
\<close>

definition removeClient :: "registry \<Rightarrow> client_id \<Rightarrow> registry" where
  "removeClient reg c =
     (case clientRooms reg c of
        None \<Rightarrow> reg
      | Some r \<Rightarrow>
          (case map_of (rooms reg) r of
             None \<Rightarrow> reg\<lparr>clientRooms := (clientRooms reg)(c := None)\<rparr>
           | Some rm \<Rightarrow>
               (let ms = removeAll c (members rm) in
                reg\<lparr>rooms := (if ms = [] then AList.delete r (rooms reg)
                                else AList.update r (rm\<lparr>members := ms\<rparr>) (rooms reg)),
                    clientRooms := (clientRooms reg)(c := None)\<rparr>)))"

text \<open>
  Modelled from the spec: \<open>leaveRoom(clientId)\<close> (section 4.2): a no-op for a client in no
  room; otherwise the client is removed, the snapshot persisted and \<open>player-left\<close> signalled
  for the vacated room.
\<close>

definition leaveRoom :: "registry \<Rightarrow> client_id \<Rightarrow> registry \<times> signal list" where
  "leaveRoom reg c =
     (case clientRooms reg c of
        None \<Rightarrow> (reg, [])
      | Some r \<Rightarrow> (persist (removeClient reg c), [PlayerLeft r c]))"

text \<open>
  Modelled from the spec: \<open>joinRoom(clientId, roomId)\<close> (section 4.2). It fails, changing
  nothing, when the room does not exist, is full or is expired; a client that is already a
  member succeeds with nothing changed (edge-case policy); otherwise the client leaves its
  prior room, is appended to the target room, the snapshot is persisted and
  \<open>player-joined\<close> is signalled.
\<close>

definition joinRoom ::
  "policy \<Rightarrow> nat \<Rightarrow> registry \<Rightarrow> client_id \<Rightarrow> room_id \<Rightarrow> bool \<times> registry \<times> signal list" where
  "joinRoom pol now reg c r =
     (case map_of (rooms reg) r of
        None \<Rightarrow> (False, reg, [])
      | Some rm \<Rightarrow>
          if c \<in> set (members rm) then (True, reg, [])
          else if maxMembers pol \<le> length (members rm) then (False, reg, [])
          else if isExpired pol now rm then (False, reg, [])
          else
            (let reg1 = removeClient reg c;
                 reg2 = reg1\<lparr>rooms := AList.update r (rm\<lparr>members := members rm @ [c]\<rparr>) (rooms reg1),
                            clientRooms := (clientRooms reg1)(c \<mapsto> r)\<rparr>
             in (True, persist reg2, [PlayerJoined r c])))"

text \<open>
  Modelled from the spec: \<open>createRoom(clientId)\<close> (section 4.2). The identifier generator is
  random; its successive outputs are the list \<open>cands\<close>, and generation is retried until an
  identifier that is not in use comes up. \<open>None\<close>: no candidate was unused, the operation
  does not return. A client belongs to at most one room at a time (section 3): the creator
  is taken out of the room it occupies, if any, before it becomes the sole member of the
  new room.
\<close>

definition createRoom ::
  "nat \<Rightarrow> registry \<Rightarrow> client_id \<Rightarrow> room_id list \<Rightarrow> (room_id \<times> registry) option" where
  "createRoom now reg c cands =
     (case find (\<lambda>r. map_of (rooms reg) r = None) cands of
        None \<Rightarrow> None
      | Some r \<Rightarrow>
          (let reg1 = removeClient reg c in
           Some (r, persist (reg1\<lparr>rooms := AList.update r \<lparr>members = [c], createdAt = now\<rparr> (rooms reg1),
                                  clientRooms := (clientRooms reg1)(c \<mapsto> r)\<rparr>))))"

text \<open>Modelled from the spec: the administrative reset.\<close>

definition clearAllRooms :: "registry \<Rightarrow> registry" where
  "clearAllRooms reg = reg\<lparr>rooms := [], clientRooms := Map.empty, store := None\<rparr>"

text \<open>
  Modelled from the spec: Pending Acknowledgements (section 3): at most one per client and
  request kind; fulfilling it removes it and hands the callback to the caller to invoke.
\<close>

definition registerCallback :: "registry \<Rightarrow> client_id \<Rightarrow> string \<Rightarrow> callback \<Rightarrow> registry" where
  "registerCallback reg c kind cb = reg\<lparr>pendingAcks := (pendingAcks reg)((c, kind) \<mapsto> cb)\<rparr>"

definition executeCallback :: "registry \<Rightarrow> client_id \<Rightarrow> string \<Rightarrow> registry \<times> callback option" where
  "executeCallback reg c kind =
     (case pendingAcks reg (c, kind) of
        None \<Rightarrow> (reg, None)
      | Some cb \<Rightarrow> (reg\<lparr>pendingAcks := (pendingAcks reg)((c, kind) := None)\<rparr>, Some cb))"

subsection \<open>Sequences of registry operations\<close>

datatype op =
    CreateRoom client_id "room_id list" nat
  | JoinRoom client_id room_id nat
  | LeaveRoom client_id

fun step :: "policy \<Rightarrow> registry \<Rightarrow> op \<Rightarrow> registry option" where
  "step pol reg (CreateRoom c cands now) = map_option snd (createRoom now reg c cands)"
| "step pol reg (JoinRoom c r now) = Some (fst (snd (joinRoom pol now reg c r)))"
| "step pol reg (LeaveRoom c) = Some (fst (leaveRoom reg c))"

fun run :: "policy \<Rightarrow> registry \<Rightarrow> op list \<Rightarrow> registry option" where
  "run pol reg [] = Some reg"
| "run pol reg (x # xs) =
     (case step pol reg x of None \<Rightarrow> None | Some reg' \<Rightarrow> run pol reg' xs)"

text \<open>
  The central invariant: every index pointer has a matching entry in that room's member
  list, and every member of a room has the index pointing to that room.
\<close>

definition consistent :: "registry \<Rightarrow> bool" where
  "consistent reg \<longleftrightarrow>
     (\<forall>c r. clientRooms reg c = Some r \<longrightarrow> c \<in> set (getClientsInRoom reg r)) \<and>
     (\<forall>r rm c. map_of (rooms reg) r = Some rm \<and> c \<in> set (members rm) \<longrightarrow> clientRooms reg c = Some r)"

text \<open>Representation invariant of the room table: one entry per room identifier.\<close>

definition uniqueRooms :: "registry \<Rightarrow> bool" where
  "uniqueRooms reg \<longleftrightarrow> distinct (map fst (rooms reg))"

text \<open>The store holds the snapshot of the rooms in memory.\<close>

definition synced :: "registry \<Rightarrow> bool" where
  "synced reg \<longleftrightarrow> load reg = rooms reg"

section \<open>The mock socket and the facade\<close>

subsection \<open>JavaScript values\<close>

fun jsTruthy :: "jsval \<Rightarrow> bool" where
  "jsTruthy JUndefined = False"
| "jsTruthy JNull = False"
| "jsTruthy (JBool b) = b"
| "jsTruthy (JStr s) = (s \<noteq> [])"
| "jsTruthy (JObj fs) = True"
| "jsTruthy (JFun f) = True"

text \<open>Property access \<^verbatim>\<open>v.name\<close> on a truthy value; a missing property is \<^verbatim>\<open>undefined\<close>.\<close>

fun jsField :: "jsval \<Rightarrow> string \<Rightarrow> jsval" where
  "jsField (JObj fs) n = (case map_of fs n of None \<Rightarrow> JUndefined | Some v \<Rightarrow> v)"
| "jsField v n = JUndefined"

text \<open>\<^verbatim>\<open>s.includes(t)\<close>: \<open>t\<close> occurs in \<open>s\<close> as a contiguous substring.\<close>

fun strIncludes :: "string \<Rightarrow> string \<Rightarrow> bool" where
  "strIncludes [] t = (t = [])"
| "strIncludes (x # xs) t = (prefix t (x # xs) \<or> strIncludes xs t)"

subsection \<open>State\<close>

text \<open>
  Handlers registered on a socket are closures. Those of \<^verbatim>\<open>SocketProvider\<close> are named. Any
  other is a closure of the application: \<open>AppHandler n\<close> is the closure with identity \<open>n\<close>.
  What the call of such a closure does to the channel it is registered on is a list of
  effects, carried out in order: the closure may register a handler (\<^verbatim>\<open>socket.on\<close>),
  unregister one handler or all handlers of a name (\<^verbatim>\<open>socket.off\<close>), and it may throw,
  which ends the call.
\<close>

datatype handler = FacadeConnect | FacadeDisconnect | AppHandler nat

datatype effect = CallOn string handler | CallOff string "handler option" | Throw

text \<open>How a call ends: it returns, or an exception leaves it.\<close>

datatype completion = Returned | Threw

record mockSocket =
  sid :: client_id
  connected :: bool
  listeners :: "string \<rightharpoonup> handler list"
  emitters :: "string \<rightharpoonup> jsval list list"

text \<open>The closures that \<^verbatim>\<open>createMockSocket\<close> registers on the server, for the socket \<open>id\<close>.\<close>

datatype serverHandler = OnPlayerJoined client_id | OnPlayerLeft client_id | OnDrawingUpdate client_id

datatype outcome = Resolved jsval | Rejected string

datatype promiseState = Pending | Settled outcome

datatype timerAction =
    ExecuteAck client_id string jsval
  | ConnectSocket client_id
  | CreateTimeout nat
  | JoinTimeout nat

record timer =
  handle :: nat
  due :: nat
  action :: timerAction

record facade =
  socket :: "client_id option"
  isConnected :: bool
  roomId :: jsval
  isConnecting :: bool
  toasts :: "string list"

record world =
  server :: registry
  serverListeners :: "(string \<times> serverHandler) list"
  sockets :: "client_id \<rightharpoonup> mockSocket"
  received :: "(client_id \<times> string \<times> jsval list) list"
  invoked :: "(client_id \<times> string \<times> handler \<times> jsval list) list"
  timers :: "timer list"
  nextHandle :: nat
  clock :: nat
  promises :: "nat \<rightharpoonup> promiseState"
  nextPromise :: nat
  ui :: facade
  handlerBody :: "nat \<Rightarrow> jsval list \<Rightarrow> effect list"

text \<open>
  \<open>handlerBody w n args\<close> is the body of the application closure \<open>n\<close> when it is called with
  the arguments \<open>args\<close>; \<open>ui w\<close> is the React state of \<^verbatim>\<open>SocketProvider\<close>.

  What the code takes from outside: the registry's policy and the random room codes.
\<close>

record env =
  regPolicy :: policy
  roomCodes :: "room_id list"

definition initialWorld :: world where
  "initialWorld =
     \<lparr>server = initialRegistry, serverListeners = [], sockets = Map.empty, received = [],
      invoked = [], timers = [], nextHandle = 0, clock = 0, promises = Map.empty,
      nextPromise = 0,
      ui = \<lparr>socket = None, isConnected = False, roomId = JNull, isConnecting = False,
            toasts = []\<rparr>,
      handlerBody = (\<lambda>n args. [])\<rparr>"

subsection \<open>React state setters, timers and promises\<close>

definition toast :: "string \<Rightarrow> world \<Rightarrow> world" where
  "toast title w = w\<lparr>ui := (ui w)\<lparr>toasts := toasts (ui w) @ [title]\<rparr>\<rparr>"

definition setIsConnected :: "bool \<Rightarrow> world \<Rightarrow> world" where
  "setIsConnected b w = w\<lparr>ui := (ui w)\<lparr>isConnected := b\<rparr>\<rparr>"

definition setIsConnecting :: "bool \<Rightarrow> world \<Rightarrow> world" where
  "setIsConnecting b w = w\<lparr>ui := (ui w)\<lparr>isConnecting := b\<rparr>\<rparr>"

definition setRoomId :: "jsval \<Rightarrow> world \<Rightarrow> world" where
  "setRoomId v w = w\<lparr>ui := (ui w)\<lparr>roomId := v\<rparr>\<rparr>"

definition setSocket :: "client_id \<Rightarrow> world \<Rightarrow> world" where
  "setSocket c w = w\<lparr>ui := (ui w)\<lparr>socket := Some c\<rparr>\<rparr>"

text \<open>\<^verbatim>\<open>setTimeout(f, delay)\<close>; the handle it returns is \<open>nextHandle\<close> of the world it is called in.\<close>

definition setTimeout :: "timerAction \<Rightarrow> nat \<Rightarrow> world \<Rightarrow> world" where
  "setTimeout a delay w =
     w\<lparr>timers := timers w @ [\<lparr>handle = nextHandle w, due = clock w + delay, action = a\<rparr>],
       nextHandle := Suc (nextHandle w)\<rparr>"

definition clearTimeout :: "nat \<Rightarrow> world \<Rightarrow> world" where
  "clearTimeout h w = w\<lparr>timers := filter (\<lambda>tm. handle tm \<noteq> h) (timers w)\<rparr>"

text \<open>\<^verbatim>\<open>new Promise\<close>; the promise it returns is \<open>nextPromise\<close> of the world it is called in.\<close>

definition newPromise :: "promiseState \<Rightarrow> world \<Rightarrow> world" where
  "newPromise st w = w\<lparr>promises := (promises w)(nextPromise w \<mapsto> st), nextPromise := Suc (nextPromise w)\<rparr>"

text \<open>\<^verbatim>\<open>resolve\<close> and \<^verbatim>\<open>reject\<close> of a promise: only a pending promise changes state.\<close>

definition settle :: "nat \<Rightarrow> outcome \<Rightarrow> world \<Rightarrow> world" where
  "settle p out w =
     (case promises w p of
        Some Pending \<Rightarrow> w\<lparr>promises := (promises w)(p \<mapsto> Settled out)\<rparr>
      | _ \<Rightarrow> w)"

subsection \<open>The mock socket: on, off, receive, disconnect\<close>

definition on :: "mockSocket \<Rightarrow> string \<Rightarrow> handler \<Rightarrow> mockSocket" where
  "on s event cb =
     s\<lparr>listeners := (listeners s)(event \<mapsto>
          (case listeners s event of None \<Rightarrow> [] | Some cbs \<Rightarrow> cbs) @ [cb])\<rparr>"

definition off :: "mockSocket \<Rightarrow> string \<Rightarrow> handler option \<Rightarrow> mockSocket" where
  "off s event cbo =
     (case listeners s event of
        None \<Rightarrow> s
      | Some cbs \<Rightarrow>
          (case cbo of
             Some cb \<Rightarrow> s\<lparr>listeners := (listeners s)(event \<mapsto> remove1 cb cbs)\<rparr>
           | None \<Rightarrow> s\<lparr>listeners := (listeners s)(event := None)\<rparr>))"

definition getId :: "mockSocket \<Rightarrow> client_id" where
  "getId s = sid s"

text \<open>\<^verbatim>\<open>listeners.get(event) || []\<close> of the socket \<open>c\<close>.\<close>

definition callbacksOf :: "world \<Rightarrow> client_id \<Rightarrow> string \<Rightarrow> handler list" where
  "callbacksOf w c event =
     (case sockets w c of
        None \<Rightarrow> []
      | Some s \<Rightarrow> (case listeners s event of None \<Rightarrow> [] | Some cbs \<Rightarrow> cbs))"

text \<open>\<^verbatim>\<open>mockSocket.on\<close> and \<^verbatim>\<open>mockSocket.off\<close> of the socket with identifier \<open>c\<close>.\<close>

definition socketOn :: "client_id \<Rightarrow> string \<Rightarrow> handler \<Rightarrow> world \<Rightarrow> world" where
  "socketOn c event h w =
     (case sockets w c of
        None \<Rightarrow> w
      | Some s \<Rightarrow> w\<lparr>sockets := (sockets w)(c \<mapsto> on s event h)\<rparr>)"

definition socketOff :: "client_id \<Rightarrow> string \<Rightarrow> handler option \<Rightarrow> world \<Rightarrow> world" where
  "socketOff c event cbo w =
     (case sockets w c of
        None \<Rightarrow> w
      | Some s \<Rightarrow> w\<lparr>sockets := (sockets w)(c \<mapsto> off s event cbo)\<rparr>)"

text \<open>
  \<^verbatim>\<open>callbacks.forEach((callback) => callback(...args))\<close>, where \<^verbatim>\<open>callbacks\<close> is
  \<^verbatim>\<open>listeners.get(event) || []\<close>. The array that \<^verbatim>\<open>forEach\<close> walks is the array object that
  \<^verbatim>\<open>listeners\<close> holds for the event, not a copy: \<^verbatim>\<open>on\<close> pushes onto it and \<^verbatim>\<open>off\<close> splices it
  while the walk goes on. It stops being that array when \<^verbatim>\<open>off(event)\<close> deletes the entry
  of \<^verbatim>\<open>listeners\<close>; from then on nothing refers to it and it stays as it is. The walk
  carries \<open>det\<close>: \<open>None\<close> while the array is the one in \<^verbatim>\<open>listeners\<close>, \<open>Some xs\<close> once it is
  detached, with its elements \<open>xs\<close>.

  The body of an application closure, run on the socket \<open>c\<close> during the walk for \<open>event\<close>.
\<close>

fun runBody ::
  "client_id \<Rightarrow> string \<Rightarrow> effect list \<Rightarrow> handler list option \<times> world \<Rightarrow>
   completion \<times> handler list option \<times> world" where
  "runBody c event [] (det, w) = (Returned, det, w)"
| "runBody c event (Throw # fx) (det, w) = (Threw, det, w)"
| "runBody c event (CallOn ev h # fx) (det, w) = runBody c event fx (det, socketOn c ev h w)"
| "runBody c event (CallOff ev (Some h) # fx) (det, w) =
     runBody c event fx (det, socketOff c ev (Some h) w)"
| "runBody c event (CallOff ev None # fx) (det, w) =
     runBody c event fx
       (if ev = event \<and> det = None then Some (callbacksOf w c event) else det,
        socketOff c ev None w)"

text \<open>
  One call \<^verbatim>\<open>callback(...args)\<close> of a handler of socket \<open>c\<close>. The handlers of the facade are
  those of \<^verbatim>\<open>SocketProvider\<close>'s effect (\<^verbatim>\<open>socketInstance.on('connect', ...)\<close> and
  \<^verbatim>\<open>socketInstance.on('disconnect', ...)\<close>).
\<close>

definition invoke ::
  "client_id \<Rightarrow> string \<Rightarrow> jsval list \<Rightarrow> handler \<Rightarrow> handler list option \<times> world \<Rightarrow>
   completion \<times> handler list option \<times> world" where
  "invoke c event args h st =
     (case st of
        (det, w) \<Rightarrow>
          (let w1 = w\<lparr>invoked := invoked w @ [(c, event, h, args)]\<rparr> in
           case h of
             FacadeConnect \<Rightarrow>
               (Returned, det,
                toast ''Connected to server'' (setIsConnecting False (setIsConnected True w1)))
           | FacadeDisconnect \<Rightarrow>
               (Returned, det, toast ''Disconnected'' (setRoomId JNull (setIsConnected False w1)))
           | AppHandler n \<Rightarrow> runBody c event (handlerBody w n args) (det, w1)))"

text \<open>
  The step of \<^verbatim>\<open>forEach\<close> at index \<open>k\<close>: the callback is called with the element that the
  array holds at \<open>k\<close> now, if it still has one there. After a throw no step is taken.
\<close>

definition visit ::
  "client_id \<Rightarrow> string \<Rightarrow> jsval list \<Rightarrow> completion \<times> handler list option \<times> world \<Rightarrow> nat \<Rightarrow>
   completion \<times> handler list option \<times> world" where
  "visit c event args st k =
     (case st of
        (Threw, det, w) \<Rightarrow> st
      | (Returned, det, w) \<Rightarrow>
          (let xs = (case det of None \<Rightarrow> callbacksOf w c event | Some ys \<Rightarrow> ys) in
           if k < length xs then invoke c event args (xs ! k) (det, w) else st))"

text \<open>
  The walk: the indices below the length that the array has at the start are visited in
  order. (When \<^verbatim>\<open>listeners\<close> has no entry for the event the array is a fresh empty one and
  no index is visited.)
\<close>

definition forEachCallback ::
  "client_id \<Rightarrow> string \<Rightarrow> jsval list \<Rightarrow> world \<Rightarrow> completion \<times> world" where
  "forEachCallback c event args w =
     (case foldl (visit c event args) (Returned, None, w) [0..<length (callbacksOf w c event)] of
        (cmp, det, w') \<Rightarrow> (cmp, w'))"

text \<open>\<^verbatim>\<open>mockSocket.receive(event, ...args)\<close> and \<^verbatim>\<open>mockSocket.disconnect()\<close>.\<close>

definition receive :: "world \<Rightarrow> client_id \<Rightarrow> string \<Rightarrow> jsval list \<Rightarrow> completion \<times> world" where
  "receive w c event args =
     forEachCallback c event args (w\<lparr>received := received w @ [(c, event, args)]\<rparr>)"

definition disconnect :: "world \<Rightarrow> client_id \<Rightarrow> completion \<times> world" where
  "disconnect w c = forEachCallback c ''disconnect'' [] w"

subsection \<open>The server side as the mock socket uses it\<close>

text \<open>
  Modelled from the spec: a read of the member list with a JavaScript value as the key; a
  key that is not a string names no room.
\<close>

definition clientsInRoomOf :: "registry \<Rightarrow> jsval \<Rightarrow> client_id list" where
  "clientsInRoomOf reg v = (case v of JStr r \<Rightarrow> getClientsInRoom reg r | _ \<Rightarrow> [])"

text \<open>
  The bodies of the three closures of \<^verbatim>\<open>createMockSocket\<close>
  (\<^verbatim>\<open>mockSocketServer.on('player-joined', ...)\<close>, \<^verbatim>\<open>'player-left'\<close> and
  \<^verbatim>\<open>'room:*:drawing-update'\<close>).
\<close>

definition runServerHandler :: "world \<Rightarrow> serverHandler \<Rightarrow> jsval \<Rightarrow> completion \<times> world" where
  "runServerHandler w h data =
     (case h of
        OnPlayerJoined c \<Rightarrow>
          if jsTruthy data \<and> jsTruthy (jsField data ''roomId'') \<and>
             c \<in> set (clientsInRoomOf (server w) (jsField data ''roomId''))
          then receive w c ''player-joined'' [data] else (Returned, w)
      | OnPlayerLeft c \<Rightarrow>
          if jsTruthy data \<and> jsTruthy (jsField data ''roomId'') \<and>
             c \<in> set (clientsInRoomOf (server w) (jsField data ''roomId''))
          then receive w c ''player-left'' [data] else (Returned, w)
      | OnDrawingUpdate c \<Rightarrow>
          (case getRoomForClient (server w) c of
             None \<Rightarrow> (Returned, w)
           | Some r \<Rightarrow>
               if r \<noteq> [] \<and> jsTruthy data \<and> jsField data ''roomId'' = JStr r
               then receive w c ''drawing-update'' [data] else (Returned, w)))"

text \<open>
  Modelled from the spec: \<^verbatim>\<open>mockSocketServer.on\<close> and the delivery of a server-side event:
  every handler subscribed under the event's name is called once, in subscription order.
  Each recipient receives exactly once (section 4.3) and the registry does not raise for
  ordinary outcomes (section 7): a subscriber that throws does not keep the event from
  the subscribers after it, and its exception does not reach the caller of the delivery.
\<close>

definition serverOn :: "string \<Rightarrow> serverHandler \<Rightarrow> world \<Rightarrow> world" where
  "serverOn name h w = w\<lparr>serverListeners := serverListeners w @ [(name, h)]\<rparr>"

definition emitServer :: "world \<Rightarrow> string \<Rightarrow> jsval \<Rightarrow> world" where
  "emitServer w name data =
     foldl (\<lambda>w' l. if fst l = name then snd (runServerHandler w' (snd l) data) else w') w
       (serverListeners w)"

text \<open>
  Modelled from the spec: \<open>broadcastToRoom(roomId, eventName, payload)\<close> (section 4.3). The
  broadcast reaches the subscribers of \<^verbatim>\<open>room:*:<eventName>\<close>, the name under which
  \<^verbatim>\<open>createMockSocket\<close> subscribes; each subscriber decides from the Membership Index
  whether its client is addressed.
\<close>

definition broadcastToRoom :: "world \<Rightarrow> jsval \<Rightarrow> string \<Rightarrow> jsval \<Rightarrow> world" where
  "broadcastToRoom w roomIdv eventName payload = emitServer w (''room:*:'' @ eventName) payload"

text \<open>
  Modelled from the spec: the membership events carry the room and the client
  (section 6); they reach the subscribers of \<^verbatim>\<open>player-joined\<close> and \<^verbatim>\<open>player-left\<close>.
\<close>

definition signalPayload :: "room_id \<Rightarrow> client_id \<Rightarrow> jsval" where
  "signalPayload r c = JObj [(''roomId'', JStr r), (''clientId'', JStr c)]"

definition dispatchSignal :: "world \<Rightarrow> signal \<Rightarrow> world" where
  "dispatchSignal w sg =
     (case sg of
        PlayerJoined r c \<Rightarrow> emitServer w ''player-joined'' (signalPayload r c)
      | PlayerLeft r c \<Rightarrow> emitServer w ''player-left'' (signalPayload r c))"

text \<open>The calls \<^verbatim>\<open>mockSocketServer.leaveRoom(id)\<close> and \<^verbatim>\<open>mockSocketServer.joinRoom(id, roomId)\<close>.\<close>

definition serverLeaveRoom :: "world \<Rightarrow> client_id \<Rightarrow> world" where
  "serverLeaveRoom w c =
     (case leaveRoom (server w) c of
        (reg', sigs) \<Rightarrow> foldl dispatchSignal (w\<lparr>server := reg'\<rparr>) sigs)"

definition serverJoinRoom :: "env \<Rightarrow> world \<Rightarrow> client_id \<Rightarrow> jsval \<Rightarrow> bool \<times> world" where
  "serverJoinRoom e w c v =
     (case v of
        JStr r \<Rightarrow>
          (case joinRoom (regPolicy e) (clock w) (server w) c r of
             (ok, reg', sigs) \<Rightarrow> (ok, foldl dispatchSignal (w\<lparr>server := reg'\<rparr>) sigs))
      | _ \<Rightarrow> (False, w))"

subsection \<open>The mock socket: emit\<close>

text \<open>\<^verbatim>\<open>args[args.length - 1]\<close> and \<^verbatim>\<open>args[0]\<close>; reading past the end gives \<^verbatim>\<open>undefined\<close>.\<close>

definition lastArg :: "jsval list \<Rightarrow> jsval" where
  "lastArg args = (if args = [] then JUndefined else last args)"

definition firstArg :: "jsval list \<Rightarrow> jsval" where
  "firstArg args = (case args of [] \<Rightarrow> JUndefined | a # rest \<Rightarrow> a)"

text \<open>The end of \<^verbatim>\<open>emit\<close>: the arguments are pushed on \<^verbatim>\<open>emitters.get(event)\<close>.\<close>

definition recordEmit :: "client_id \<Rightarrow> string \<Rightarrow> jsval list \<Rightarrow> world \<Rightarrow> world" where
  "recordEmit c event args w =
     (case sockets w c of
        None \<Rightarrow> w
      | Some s \<Rightarrow>
          w\<lparr>sockets := (sockets w)(c \<mapsto>
               s\<lparr>emitters := (emitters s)(event \<mapsto>
                    (case emitters s event of None \<Rightarrow> [] | Some xs \<Rightarrow> xs) @ [args])\<rparr>)\<rparr>)"

text \<open>
  \<^verbatim>\<open>mockSocket.emit(event, ...args)\<close> of the socket with identifier \<open>c\<close>. The time-outs of 300
  ms deliver the acknowledgement later; the server-side mutation happens within the call.
  \<open>None\<close>: the call does not return (no unused room code is generated).
\<close>

definition emit :: "env \<Rightarrow> world \<Rightarrow> client_id \<Rightarrow> string \<Rightarrow> jsval list \<Rightarrow> world option" where
  "emit e w c event args =
     map_option (recordEmit c event args)
       (if event = ''create-room'' then
          (case lastArg args of
             JFun cb \<Rightarrow>
               (case createRoom (clock w) (registerCallback (server w) c ''create-room'' cb) c
                       (roomCodes e) of
                  None \<Rightarrow> None
                | Some (r, reg') \<Rightarrow>
                    Some (setTimeout (ExecuteAck c ''create-room'' (JStr r)) 300
                            (w\<lparr>server := reg'\<rparr>)))
           | _ \<Rightarrow> Some w)
        else if event = ''join-room'' then
          (case lastArg args of
             JFun cb \<Rightarrow>
               (let w1 = w\<lparr>server := registerCallback (server w) c ''join-room'' cb\<rparr>;
                    w2 = serverLeaveRoom w1 c;
                    w3 = w2\<lparr>server := loadPersistentRooms (server w2)\<rparr>
                in case serverJoinRoom e w3 c (firstArg args) of
                     (success, w4) \<Rightarrow>
                       Some (setTimeout (ExecuteAck c ''join-room'' (JBool success)) 300 w4))
           | _ \<Rightarrow> Some w)
        else if event = ''leave-room'' then Some (serverLeaveRoom w c)
        else if strIncludes event ''drawing-action'' then
          (let data = firstArg args in
           if jsTruthy data \<and> jsTruthy (jsField data ''roomId'')
           then Some (broadcastToRoom w (jsField data ''roomId'') ''drawing-update'' data)
           else Some w)
        else Some w)"

text \<open>
  \<^verbatim>\<open>createMockSocket()\<close>; \<open>c\<close> is the random identifier it draws. The socket is connected,
  the \<^verbatim>\<open>connect\<close> callbacks are scheduled after 100 ms, and the three closures are
  subscribed on the server.
\<close>

definition createMockSocket :: "client_id \<Rightarrow> world \<Rightarrow> world" where
  "createMockSocket c w =
     serverOn ''room:*:drawing-update'' (OnDrawingUpdate c)
       (serverOn ''player-left'' (OnPlayerLeft c)
         (serverOn ''player-joined'' (OnPlayerJoined c)
           (setTimeout (ConnectSocket c) 100
             (w\<lparr>sockets := (sockets w)(c \<mapsto>
                  \<lparr>sid = c, connected = True, listeners = Map.empty, emitters = Map.empty\<rparr>)\<rparr>))))"

text \<open>The effect of \<^verbatim>\<open>SocketProvider\<close> that initialises the socket connection.\<close>

definition initSocket :: "client_id \<Rightarrow> world \<Rightarrow> world" where
  "initSocket c w =
     setSocket c
       (socketOn c ''disconnect'' FacadeDisconnect
         (socketOn c ''connect'' FacadeConnect (createMockSocket c w)))"

subsection \<open>Timers and acknowledgements\<close>

text \<open>
  The acknowledgement callbacks of \<^verbatim>\<open>createRoom\<close> and \<^verbatim>\<open>joinRoom\<close> of the facade, called
  with the server's reply \<open>v\<close>.
\<close>

definition runCallback :: "world \<Rightarrow> callback \<Rightarrow> jsval \<Rightarrow> world" where
  "runCallback w cb v =
     (case cb of
        CreateAck p t \<Rightarrow>
          settle p (Resolved v)
            (toast ''Room created'' (setRoomId v (setIsConnecting False (clearTimeout t w))))
      | JoinAck p t r \<Rightarrow>
          (let w1 = setIsConnecting False (clearTimeout t w);
               w2 = (if jsTruthy v then toast ''Joined room'' (setRoomId (JStr r) w1)
                     else toast ''Joining room failed'' w1)
           in settle p (Resolved v) w2)
      | AppCallback n \<Rightarrow> w)"

text \<open>
  The body of one timer: the four \<^verbatim>\<open>setTimeout\<close> callbacks of the file. An exception that
  leaves a timer callback goes to the host, which reports it; the timers that follow fire
  as usual.
\<close>

definition fire :: "world \<Rightarrow> timerAction \<Rightarrow> world" where
  "fire w a =
     (case a of
        ExecuteAck c kind v \<Rightarrow>
          (case executeCallback (server w) c kind of
             (reg', None) \<Rightarrow> w\<lparr>server := reg'\<rparr>
           | (reg', Some cb) \<Rightarrow> runCallback (w\<lparr>server := reg'\<rparr>) cb v)
      | ConnectSocket c \<Rightarrow> snd (forEachCallback c ''connect'' [] w)
      | CreateTimeout p \<Rightarrow>
          toast ''Room creation failed''
            (settle p (Rejected ''Room creation timeout'') (setIsConnecting False w))
      | JoinTimeout p \<Rightarrow>
          toast ''Joining room failed''
            (settle p (Rejected ''Join room timeout'') (setIsConnecting False w)))"

text \<open>The timer that fires next among those due by \<open>t\<close>: the least due time, the oldest first.\<close>

fun earliest :: "timer list \<Rightarrow> timer option" where
  "earliest [] = None"
| "earliest (tm # tms) =
     (case earliest tms of
        None \<Rightarrow> Some tm
      | Some tm' \<Rightarrow> if due tm \<le> due tm' then Some tm else Some tm')"

definition nextTimer :: "nat \<Rightarrow> world \<Rightarrow> timer option" where
  "nextTimer t w = earliest (filter (\<lambda>tm. due tm \<le> t) (timers w))"

definition takeTimer :: "timer \<Rightarrow> world \<Rightarrow> world" where
  "takeTimer tm w = w\<lparr>timers := remove1 tm (timers w), clock := max (clock w) (due tm)\<rparr>"

subsection \<open>The Session Facade\<close>

text \<open>
  \<^verbatim>\<open>leaveRoom\<close>, \<^verbatim>\<open>createRoom\<close>, \<^verbatim>\<open>joinRoom\<close> and \<^verbatim>\<open>debugResetRooms\<close> of \<^verbatim>\<open>SocketProvider\<close>.
  Each render of the component defines these functions anew, closed over the constants
  \<^verbatim>\<open>socket\<close> and \<^verbatim>\<open>roomId\<close> that \<^verbatim>\<open>useState\<close> gave that render: \<open>r\<close> is the state the render
  was made with. A call of a state setter changes the state \<open>ui w\<close> that the next render
  will see; it does not change \<open>r\<close>. The functions of the latest render are those with
  \<open>r = ui w\<close>.

  An \<^verbatim>\<open>async\<close> function returns a promise: the result is the promise's number and the world
  in which it stands; a \<^verbatim>\<open>throw\<close> in the function body is a promise rejected at once.
\<close>

definition facadeLeaveRoom :: "env \<Rightarrow> facade \<Rightarrow> world \<Rightarrow> world option" where
  "facadeLeaveRoom e r w =
     (case socket r of
        None \<Rightarrow> Some w
      | Some c \<Rightarrow>
          if jsTruthy (roomId r) then
            map_option (\<lambda>w1. toast ''Left room'' (setRoomId JNull w1))
              (emit e w c ''leave-room'' [roomId r])
          else Some w)"

definition facadeCreateRoom :: "env \<Rightarrow> facade \<Rightarrow> world \<Rightarrow> (nat \<times> world) option" where
  "facadeCreateRoom e r w =
     (case socket r of
        None \<Rightarrow> Some (nextPromise w, newPromise (Settled (Rejected ''Socket not connected'')) w)
      | Some c \<Rightarrow>
          (let w1 = setIsConnecting True w;
               p = nextPromise w1;
               w2 = newPromise Pending w1;
               t = nextHandle w2;
               w3 = setTimeout (CreateTimeout p) 5000 w2
           in map_option (Pair p) (emit e w3 c ''create-room'' [JFun (CreateAck p t)])))"

definition facadeJoinRoom :: "env \<Rightarrow> facade \<Rightarrow> world \<Rightarrow> string \<Rightarrow> (nat \<times> world) option" where
  "facadeJoinRoom e r w roomToJoin =
     (case socket r of
        None \<Rightarrow> Some (nextPromise w, newPromise (Settled (Rejected ''Socket not connected'')) w)
      | Some c \<Rightarrow>
          (case (if jsTruthy (roomId r) then facadeLeaveRoom e r (setIsConnecting True w)
                 else Some (setIsConnecting True w)) of
             None \<Rightarrow> None
           | Some w2 \<Rightarrow>
               if roomToJoin = [] \<or> length roomToJoin \<noteq> 6 then
                 Some (nextPromise w2,
                       newPromise (Settled (Resolved (JBool False)))
                         (toast ''Invalid room code'' (setIsConnecting False w2)))
               else
                 (case roomExists (loadPersistentRooms (server w2)) roomToJoin of
                    (exists, reg') \<Rightarrow>
                      if \<not> exists then
                        Some (nextPromise w2,
                              newPromise (Settled (Resolved (JBool False)))
                                (toast ''Room not found''
                                  (setIsConnecting False (w2\<lparr>server := reg'\<rparr>))))
                      else
                        (let p = nextPromise w2;
                             w3 = newPromise Pending (w2\<lparr>server := reg'\<rparr>);
                             t = nextHandle w3;
                             w4 = setTimeout (JoinTimeout p) 5000 w3
                         in map_option (Pair p)
                              (emit e w4 c ''join-room''
                                 [JStr roomToJoin, JFun (JoinAck p t roomToJoin)])))))"

definition debugResetRooms :: "world \<Rightarrow> world" where
  "debugResetRooms w =
     toast ''Debug: Rooms Reset'' (setRoomId JNull (w\<lparr>server := clearAllRooms (server w)\<rparr>))"

subsection \<open>Observations\<close>

text \<open>
  The subscriptions that one call of \<^verbatim>\<open>createMockSocket\<close> leaves on the server, and the
  worlds whose subscriptions are those of sockets with the distinct identifiers \<open>ids\<close>.
\<close>

definition socketSubscriptions :: "client_id \<Rightarrow> (string \<times> serverHandler) list" where
  "socketSubscriptions c =
     [(''player-joined'', OnPlayerJoined c), (''player-left'', OnPlayerLeft c),
      (''room:*:drawing-update'', OnDrawingUpdate c)]"

definition subscribed :: "world \<Rightarrow> client_id list \<Rightarrow> bool" where
  "subscribed w ids \<longleftrightarrow>
     serverListeners w = concat (map socketSubscriptions ids) \<and> distinct ids"

text \<open>The calls of \<^verbatim>\<open>mockSocket.receive\<close> on the socket \<open>c\<close>, oldest first.\<close>

definition receivedBy :: "world \<Rightarrow> client_id \<Rightarrow> (string \<times> jsval list) list" where
  "receivedBy w c = map snd (filter (\<lambda>x. fst x = c) (received w))"

text \<open>The argument lists that the socket \<open>c\<close> has emitted under the name \<open>event\<close>.\<close>

definition emitted :: "world \<Rightarrow> client_id \<Rightarrow> string \<Rightarrow> jsval list list" where
  "emitted w c event =
     (case sockets w c of
        None \<Rightarrow> []
      | Some s \<Rightarrow> (case emitters s event of None \<Rightarrow> [] | Some xs \<Rightarrow> xs))"

text \<open>
  A registry in good order: one entry per room, index and member lists consistent, and
  the store holding the snapshot of the rooms in memory.
\<close>

definition coherent :: "registry \<Rightarrow> bool" where
  "coherent reg \<longleftrightarrow> uniqueRooms reg \<and> consistent reg \<and> synced reg"

subsection \<open>A scenario and an abbreviation\<close>

text \<open>The environment of the specification's scenario: the generator yields the code AB12CD.\<close>

definition scenarioEnv :: env where
  "scenarioEnv =
     \<lparr>regPolicy = \<lparr>maxMembers = 8, isExpired = (\<lambda>now rm. False)\<rparr>, roomCodes = [''AB12CD'']\<rparr>"

text \<open>
  The world after the first step of \<^verbatim>\<open>joinRoom\<close> of the render \<open>r\<close> (\<^verbatim>\<open>setIsConnecting(true)\<close>
  and ``clear any existing room first''), for the socket \<open>c\<close> that the render holds.
\<close>

definition clearedRoom :: "facade \<Rightarrow> world \<Rightarrow> client_id \<Rightarrow> world" where
  "clearedRoom r w c =
     (if jsTruthy (roomId r) then
        toast ''Left room'' (setRoomId JNull
          (recordEmit c ''leave-room'' [roomId r] (serverLeaveRoom (setIsConnecting True w) c)))
      else setIsConnecting True w)"

section \<open>Properties of the Room Registry\<close>

subsection \<open>Preservation of the membership invariant\<close>

lemma rooms_persist [simp]: "rooms (persist reg) = rooms reg"
  by (simp add: persist_def save_def)

lemma clientRooms_persist [simp]: "clientRooms (persist reg) = clientRooms reg"
  by (simp add: persist_def save_def)

lemma pendingAcks_persist [simp]: "pendingAcks (persist reg) = pendingAcks reg"
  by (simp add: persist_def save_def)

lemma load_persist [simp]: "load (persist reg) = rooms reg"
  by (simp add: persist_def save_def load_def)

lemma consistent_persist [simp]: "consistent (persist reg) = consistent reg"
  by (simp add: consistent_def getClientsInRoom_def)

lemma uniqueRooms_persist [simp]: "uniqueRooms (persist reg) = uniqueRooms reg"
  by (simp add: uniqueRooms_def)

lemma synced_persist [simp]: "synced (persist reg)"
  by (simp add: synced_def)

lemma map_of_rooms_removeClient:
  "map_of (rooms (removeClient reg c)) =
     (case clientRooms reg c of
        None \<Rightarrow> map_of (rooms reg)
      | Some r \<Rightarrow>
          (case map_of (rooms reg) r of
             None \<Rightarrow> map_of (rooms reg)
           | Some rm \<Rightarrow>
               if removeAll c (members rm) = [] then (map_of (rooms reg))(r := None)
               else (map_of (rooms reg))(r \<mapsto> rm\<lparr>members := removeAll c (members rm)\<rparr>)))"
  by (simp add: removeClient_def Let_def update_conv' delete_conv' split: option.splits)

lemma clientRooms_removeClient [simp]:
  "clientRooms (removeClient reg c) = (clientRooms reg)(c := None)"
  by (auto simp: removeClient_def Let_def split: option.splits)

lemma uniqueRooms_removeClient: "uniqueRooms reg \<Longrightarrow> uniqueRooms (removeClient reg c)"
  by (auto simp: uniqueRooms_def removeClient_def Let_def distinct_update distinct_delete split: option.splits)

lemma consistent_iff:
  "consistent reg \<longleftrightarrow>
     (\<forall>c r. clientRooms reg c = Some r \<longrightarrow> (\<exists>rm. map_of (rooms reg) r = Some rm \<and> c \<in> set (members rm))) \<and>
     (\<forall>r rm c. map_of (rooms reg) r = Some rm \<longrightarrow> c \<in> set (members rm) \<longrightarrow> clientRooms reg c = Some r)"
proof -
  have "c \<in> set (getClientsInRoom reg r) \<longleftrightarrow> (\<exists>rm. map_of (rooms reg) r = Some rm \<and> c \<in> set (members rm))" for c r
    by (cases "map_of (rooms reg) r") (simp_all add: getClientsInRoom_def)
  then show ?thesis unfolding consistent_def by blast
qed

lemma removeAll_eq_Nil_iff: "removeAll c xs = [] \<longleftrightarrow> (\<forall>x\<in>set xs. x = c)"
  by (induction xs) auto

lemma consistent_removeClient:
  assumes "consistent reg"
  shows "consistent (removeClient reg c)"
proof -
  from assms have A: "\<And>d r. clientRooms reg d = Some r \<Longrightarrow> \<exists>rm. map_of (rooms reg) r = Some rm \<and> d \<in> set (members rm)"
    and B: "\<And>r rm d. map_of (rooms reg) r = Some rm \<Longrightarrow> d \<in> set (members rm) \<Longrightarrow> clientRooms reg d = Some r"
    by (auto simp: consistent_iff)
  show ?thesis
  proof (cases "clientRooms reg c")
    case None
    then show ?thesis using assms by (simp add: removeClient_def)
  next
    case (Some r0)
    then obtain rm0 where rm0: "map_of (rooms reg) r0 = Some rm0" "c \<in> set (members rm0)"
      using A by blast
    show ?thesis
      unfolding consistent_iff
    proof (intro conjI allI impI)
      fix d r assume "clientRooms (removeClient reg c) d = Some r"
      then have d: "d \<noteq> c" "clientRooms reg d = Some r" by (auto split: if_splits)
      then obtain rm where rm: "map_of (rooms reg) r = Some rm" "d \<in> set (members rm)"
        using A by blast
      show "\<exists>rm. map_of (rooms (removeClient reg c)) r = Some rm \<and> d \<in> set (members rm)"
        using Some rm0 rm d by (auto simp: map_of_rooms_removeClient removeAll_eq_Nil_iff)
    next
      fix r rm d
      assume "map_of (rooms (removeClient reg c)) r = Some rm" "d \<in> set (members rm)"
      then have "d \<noteq> c \<and> clientRooms reg d = Some r"
        using Some rm0 B[of r _ d] B[of r rm0 d] B[of r rm c] B[OF rm0]
        by (auto simp: map_of_rooms_removeClient split: if_splits)
      then show "clientRooms (removeClient reg c) d = Some r" by simp
    qed
  qed
qed

lemma removeClient_not_member:
  assumes "consistent reg" "map_of (rooms (removeClient reg c)) r = Some rm"
  shows "c \<notin> set (members rm)"
proof
  assume "c \<in> set (members rm)"
  moreover have "consistent (removeClient reg c)" by (rule consistent_removeClient[OF assms(1)])
  ultimately have "clientRooms (removeClient reg c) c = Some r"
    using assms(2) unfolding consistent_iff by blast
  then show False by simp
qed

lemma removeClient_other_room:
  assumes "consistent reg" "map_of (rooms reg) r = Some rm" "c \<notin> set (members rm)"
  shows "map_of (rooms (removeClient reg c)) r = Some rm"
proof -
  from assms(1) have A: "\<And>d r. clientRooms reg d = Some r \<Longrightarrow> \<exists>rm. map_of (rooms reg) r = Some rm \<and> d \<in> set (members rm)"
    by (auto simp: consistent_iff)
  show ?thesis
  proof (cases "clientRooms reg c")
    case None
    then show ?thesis using assms by (simp add: map_of_rooms_removeClient)
  next
    case (Some r0)
    from A[OF this] obtain rm0 where "map_of (rooms reg) r0 = Some rm0" "c \<in> set (members rm0)" by blast
    with assms Some show ?thesis by (auto simp: map_of_rooms_removeClient)
  qed
qed

lemma consistent_leaveRoom: "consistent reg \<Longrightarrow> consistent (fst (leaveRoom reg c))"
  by (auto simp: leaveRoom_def consistent_removeClient split: option.splits)

lemma uniqueRooms_leaveRoom: "uniqueRooms reg \<Longrightarrow> uniqueRooms (fst (leaveRoom reg c))"
  by (auto simp: leaveRoom_def uniqueRooms_removeClient split: option.splits)

lemma consistent_joinRoom:
  assumes "consistent reg"
  shows "consistent (fst (snd (joinRoom pol now reg c r)))"
proof (cases "map_of (rooms reg) r")
  case None
  then show ?thesis using assms by (simp add: joinRoom_def)
next
  case (Some rm)
  show ?thesis
  proof (cases "c \<in> set (members rm) \<or> maxMembers pol \<le> length (members rm) \<or> isExpired pol now rm")
    case True
    then show ?thesis using assms Some by (auto simp: joinRoom_def)
  next
    case False
    let ?reg1 = "removeClient reg c"
    have c1: "consistent ?reg1" by (rule consistent_removeClient[OF assms])
    have r1: "map_of (rooms ?reg1) r = Some rm"
      using removeClient_other_room[OF assms Some] False by simp
    from c1 have A: "\<And>d r. clientRooms ?reg1 d = Some r \<Longrightarrow> \<exists>rm. map_of (rooms ?reg1) r = Some rm \<and> d \<in> set (members rm)"
      and B: "\<And>r rm d. map_of (rooms ?reg1) r = Some rm \<Longrightarrow> d \<in> set (members rm) \<Longrightarrow> clientRooms ?reg1 d = Some r"
      unfolding consistent_iff by blast+
    have N: "\<And>r' rm'. map_of (rooms ?reg1) r' = Some rm' \<Longrightarrow> c \<notin> set (members rm')"
      using removeClient_not_member[OF assms] by blast
    let ?reg2 = "?reg1\<lparr>rooms := AList.update r (rm\<lparr>members := members rm @ [c]\<rparr>) (rooms ?reg1),
                       clientRooms := (clientRooms ?reg1)(c \<mapsto> r)\<rparr>"
    have "consistent ?reg2"
      unfolding consistent_iff
    proof (intro conjI allI impI)
      fix d r' assume h: "clientRooms ?reg2 d = Some r'"
      show "\<exists>rm. map_of (rooms ?reg2) r' = Some rm \<and> d \<in> set (members rm)"
      proof (cases "d = c")
        case True
        then show ?thesis using h by (simp add: update_conv')
      next
        case False
        with h have "clientRooms ?reg1 d = Some r'" by simp
        from A[OF this] obtain rm' where "map_of (rooms ?reg1) r' = Some rm'" "d \<in> set (members rm')" by blast
        then show ?thesis using r1 by (auto simp: update_conv')
      qed
    next
      fix r' rm' d
      assume h: "map_of (rooms ?reg2) r' = Some rm'" "d \<in> set (members rm')"
      show "clientRooms ?reg2 d = Some r'"
      proof (cases "r' = r")
        case True
        with h have "rm' = rm\<lparr>members := members rm @ [c]\<rparr>" by (simp add: update_conv')
        moreover have "d \<in> set (members rm) \<Longrightarrow> clientRooms ?reg1 d = Some r" using B[OF r1] .
        ultimately show ?thesis using h(2) True by (cases "d = c") (auto split: if_splits)
      next
        case False
        with h have m: "map_of (rooms ?reg1) r' = Some rm'" by (simp add: update_conv')
        with N h have "d \<noteq> c" by blast
        with B[OF m h(2)] show ?thesis by simp
      qed
    qed
    then show ?thesis using Some False by (simp add: joinRoom_def Let_def)
  qed
qed

lemma uniqueRooms_joinRoom: "uniqueRooms reg \<Longrightarrow> uniqueRooms (fst (snd (joinRoom pol now reg c r)))"
  using uniqueRooms_removeClient[of reg c]
  by (auto simp: joinRoom_def Let_def uniqueRooms_def distinct_update split: option.splits)

lemma missing_room_removeClient:
  "map_of (rooms reg) r = None \<Longrightarrow> map_of (rooms (removeClient reg c)) r = None"
  by (auto simp: map_of_rooms_removeClient split: option.splits)

lemma consistent_newRoom:
  assumes "consistent reg" "clientRooms reg c = None" "map_of (rooms reg) r = None"
  shows "consistent (reg\<lparr>rooms := AList.update r \<lparr>members = [c], createdAt = now\<rparr> (rooms reg),
                         clientRooms := (clientRooms reg)(c \<mapsto> r)\<rparr>)"
proof -
  from assms(1) have A: "\<And>d r. clientRooms reg d = Some r \<Longrightarrow> \<exists>rm. map_of (rooms reg) r = Some rm \<and> d \<in> set (members rm)"
    and B: "\<And>r rm d. map_of (rooms reg) r = Some rm \<Longrightarrow> d \<in> set (members rm) \<Longrightarrow> clientRooms reg d = Some r"
    unfolding consistent_iff by blast+
  let ?reg2 = "reg\<lparr>rooms := AList.update r \<lparr>members = [c], createdAt = now\<rparr> (rooms reg),
                    clientRooms := (clientRooms reg)(c \<mapsto> r)\<rparr>"
  show "consistent ?reg2"
    unfolding consistent_iff
  proof (intro conjI allI impI)
    fix d r' assume h: "clientRooms ?reg2 d = Some r'"
    show "\<exists>rm. map_of (rooms ?reg2) r' = Some rm \<and> d \<in> set (members rm)"
      using h A[of d r'] assms(3) by (auto simp: update_conv' split: if_splits)
  next
    fix r' rm' d
    assume "map_of (rooms ?reg2) r' = Some rm'" "d \<in> set (members rm')"
    then show "clientRooms ?reg2 d = Some r'"
      using B[of r' rm' d] assms(2) by (auto simp: update_conv' split: if_splits)
  qed
qed

lemma createRoom_Some:
  assumes "createRoom now reg c cands = Some (r, reg')"
  shows "map_of (rooms reg) r = None"
    and "reg' = persist ((removeClient reg c)
                  \<lparr>rooms := AList.update r \<lparr>members = [c], createdAt = now\<rparr> (rooms (removeClient reg c)),
                   clientRooms := (clientRooms (removeClient reg c))(c \<mapsto> r)\<rparr>)"
  using assms by (auto simp: createRoom_def Let_def find_Some_iff split: option.splits)

lemma consistent_createRoom:
  assumes "consistent reg" "createRoom now reg c cands = Some (r, reg')"
  shows "consistent reg'"
proof -
  let ?reg1 = "removeClient reg c"
  have c1: "consistent ?reg1" using assms(1) by (rule consistent_removeClient)
  have i1: "clientRooms ?reg1 c = None" by simp
  have f1: "map_of (rooms ?reg1) r = None"
    using createRoom_Some(1)[OF assms(2)] by (rule missing_room_removeClient)
  have "consistent (?reg1\<lparr>rooms := AList.update r \<lparr>members = [c], createdAt = now\<rparr> (rooms ?reg1),
                          clientRooms := (clientRooms ?reg1)(c \<mapsto> r)\<rparr>)"
    using c1 i1 f1 by (rule consistent_newRoom)
  then show ?thesis unfolding createRoom_Some(2)[OF assms(2)] by simp
qed

lemma uniqueRooms_createRoom:
  assumes "uniqueRooms reg" "createRoom now reg c cands = Some (r, reg')"
  shows "uniqueRooms reg'"
  using uniqueRooms_removeClient[OF assms(1), of c]
  unfolding createRoom_Some(2)[OF assms(2)]
  by (simp add: uniqueRooms_def distinct_update)

lemma consistent_initial: "consistent initialRegistry"
  by (simp add: consistent_def initialRegistry_def getClientsInRoom_def)

lemma consistent_step:
  assumes "consistent reg" "step pol reg x = Some reg1"
  shows "consistent reg1"
proof (cases x)
  case (CreateRoom c cands now)
  with assms show ?thesis by (auto intro: consistent_createRoom)
next
  case (JoinRoom c r now)
  with assms show ?thesis using consistent_joinRoom by auto
next
  case (LeaveRoom c)
  with assms show ?thesis using consistent_leaveRoom by auto
qed

lemma consistent_run:
  "consistent reg \<Longrightarrow> run pol reg ops = Some reg' \<Longrightarrow> consistent reg'"
proof (induction ops arbitrary: reg)
  case Nil
  then show ?case by simp
next
  case (Cons x xs)
  from Cons.prems(2) obtain reg1 where s: "step pol reg x = Some reg1" and r: "run pol reg1 xs = Some reg'"
    by (auto split: option.splits)
  have "consistent reg1" using Cons.prems(1) s by (rule consistent_step)
  then show ?case using r by (rule Cons.IH)
qed

text \<open>
  Claim C1. Starting from the initial registry, after every sequence of \<open>createRoom\<close>,
  \<open>joinRoom\<close> and \<open>leaveRoom\<close> operations the Membership Index and the rooms' member lists
  are mutually consistent: every index pointer has a matching entry in that room's member
  list, and no member list holds a client whose pointer disagrees.
\<close>

theorem membership_consistent_after_operations:
  assumes "run pol initialRegistry ops = Some reg"
  shows "consistent reg"
  using consistent_initial assms by (rule consistent_run)

theorem membership_consistent_after_operations_witness:
  "run \<lparr>maxMembers = 8, isExpired = (\<lambda>now rm. False)\<rparr> initialRegistry
     [CreateRoom ''u1'' [''AAAAAA''] 0, JoinRoom ''u2'' ''AAAAAA'' 1,
      CreateRoom ''u1'' [''AAAAAA'', ''BBBBBB''] 2] =
     Some \<lparr>rooms = [(''AAAAAA'', \<lparr>members = [''u2''], createdAt = 0\<rparr>),
                    (''BBBBBB'', \<lparr>members = [''u1''], createdAt = 2\<rparr>)],
           clientRooms = [''u2'' \<mapsto> ''AAAAAA'', ''u1'' \<mapsto> ''BBBBBB''],
           store = Some [(''AAAAAA'', \<lparr>members = [''u2''], createdAt = 0\<rparr>),
                         (''BBBBBB'', \<lparr>members = [''u1''], createdAt = 2\<rparr>)],
           pendingAcks = Map.empty\<rparr> \<and>
   consistent \<lparr>rooms = [(''AAAAAA'', \<lparr>members = [''u2''], createdAt = 0\<rparr>),
                    (''BBBBBB'', \<lparr>members = [''u1''], createdAt = 2\<rparr>)],
           clientRooms = [''u2'' \<mapsto> ''AAAAAA'', ''u1'' \<mapsto> ''BBBBBB''],
           store = Some [(''AAAAAA'', \<lparr>members = [''u2''], createdAt = 0\<rparr>),
                         (''BBBBBB'', \<lparr>members = [''u1''], createdAt = 2\<rparr>)],
           pendingAcks = Map.empty\<rparr>"
proof -
  let ?pol = "\<lparr>maxMembers = 8, isExpired = (\<lambda>now rm. False)\<rparr>"
  let ?ops = "[CreateRoom ''u1'' [''AAAAAA''] 0, JoinRoom ''u2'' ''AAAAAA'' 1,
               CreateRoom ''u1'' [''AAAAAA'', ''BBBBBB''] 2]"
  have r: "run ?pol initialRegistry ?ops =
     Some \<lparr>rooms = [(''AAAAAA'', \<lparr>members = [''u2''], createdAt = 0\<rparr>),
                    (''BBBBBB'', \<lparr>members = [''u1''], createdAt = 2\<rparr>)],
           clientRooms = [''u2'' \<mapsto> ''AAAAAA'', ''u1'' \<mapsto> ''BBBBBB''],
           store = Some [(''AAAAAA'', \<lparr>members = [''u2''], createdAt = 0\<rparr>),
                         (''BBBBBB'', \<lparr>members = [''u1''], createdAt = 2\<rparr>)],
           pendingAcks = Map.empty\<rparr>"
    by (simp add: createRoom_def joinRoom_def removeClient_def initialRegistry_def
        persist_def save_def Let_def fun_upd_twist)
  from membership_consistent_after_operations [OF r] r show ?thesis by simp
qed

section \<open>Properties of the mock socket\<close>

subsection \<open>Frame lemmas\<close>

text \<open>
  What a walk over the handlers of a channel leaves as it is: everything but the handler
  tables of the sockets, the log of calls and the facade's connection state, whose room
  identifier is kept or cleared.
\<close>

definition untouched :: "world \<Rightarrow> world \<Rightarrow> bool" where
  "untouched w w' \<longleftrightarrow>
     server w' = server w \<and> serverListeners w' = serverListeners w \<and>
     received w' = received w \<and> timers w' = timers w \<and> nextHandle w' = nextHandle w \<and>
     clock w' = clock w \<and> promises w' = promises w \<and> nextPromise w' = nextPromise w \<and>
     handlerBody w' = handlerBody w \<and> socket (ui w') = socket (ui w) \<and>
     (roomId (ui w') = roomId (ui w) \<or> roomId (ui w') = JNull) \<and>
     (\<forall>c. map_option emitters (sockets w' c) = map_option emitters (sockets w c))"

lemma untouched_refl: "untouched w w"
  by (simp add: untouched_def)

lemma untouched_trans: "untouched w w1 \<Longrightarrow> untouched w1 w2 \<Longrightarrow> untouched w w2"
  unfolding untouched_def by (elim conjE, intro conjI) (simp_all, metis)

lemma untouched_socketOn: "untouched w (socketOn c ev h w)"
  by (simp add: untouched_def socketOn_def on_def split: option.splits)

lemma untouched_socketOff: "untouched w (socketOff c ev cbo w)"
  by (simp add: untouched_def socketOff_def off_def split: option.splits)

lemma untouched_emitted: "untouched w w' \<Longrightarrow> emitted w' c ev = emitted w c ev"
proof -
  assume "untouched w w'"
  then have "map_option emitters (sockets w' c) = map_option emitters (sockets w c)"
    by (simp add: untouched_def)
  then show ?thesis
    by (cases "sockets w c"; cases "sockets w' c") (simp_all add: emitted_def)
qed

lemma untouched_sockets: "untouched w w' \<Longrightarrow> (sockets w' c = None) = (sockets w c = None)"
proof -
  assume "untouched w w'"
  then have "map_option emitters (sockets w' c) = map_option emitters (sockets w c)"
    by (simp add: untouched_def)
  then show ?thesis by (cases "sockets w c"; cases "sockets w' c") simp_all
qed

lemma runBody_untouched: "untouched w (snd (snd (runBody c ev fx (det, w))))"
proof (induction c ev fx "(det, w)" arbitrary: det w rule: runBody.induct)
  case (1 c event det w)
  show ?case by (simp add: untouched_refl)
next
  case (2 c event fx det w)
  show ?case by (simp add: untouched_refl)
next
  case (3 c event ev h fx det w)
  have "untouched w (socketOn c ev h w)" by (rule untouched_socketOn)
  from this 3 have "untouched w (snd (snd (runBody c event fx (det, socketOn c ev h w))))"
    by (rule untouched_trans)
  then show ?case by simp
next
  case (4 c event ev h fx det w)
  have "untouched w (socketOff c ev (Some h) w)" by (rule untouched_socketOff)
  from this 4 have "untouched w (snd (snd (runBody c event fx (det, socketOff c ev (Some h) w))))"
    by (rule untouched_trans)
  then show ?case by simp
next
  case (5 c event ev fx det w)
  let ?det = "if ev = event \<and> det = None then Some (callbacksOf w c event) else det"
  have "untouched w (socketOff c ev None w)" by (rule untouched_socketOff)
  from this 5 have "untouched w (snd (snd (runBody c event fx (?det, socketOff c ev None w))))"
    by (rule untouched_trans)
  then show ?case by simp
qed

lemma invoke_untouched: "untouched w (snd (snd (invoke c ev args h (det, w))))"
proof (cases h)
  case FacadeConnect
  then show ?thesis
    by (simp add: invoke_def untouched_def toast_def setIsConnecting_def setIsConnected_def)
next
  case FacadeDisconnect
  then show ?thesis
    by (simp add: invoke_def untouched_def toast_def setRoomId_def setIsConnected_def)
next
  case (AppHandler n)
  let ?w1 = "w\<lparr>invoked := invoked w @ [(c, ev, h, args)]\<rparr>"
  have "untouched w ?w1" by (simp add: untouched_def)
  moreover have "untouched ?w1 (snd (snd (runBody c ev (handlerBody w n args) (det, ?w1))))"
    by (rule runBody_untouched)
  ultimately show ?thesis using AppHandler by (simp add: invoke_def untouched_trans)
qed

lemma visit_untouched:
  assumes "untouched w0 (snd (snd st))"
  shows "untouched w0 (snd (snd (visit c ev args st k)))"
proof -
  obtain cmp det w where st: "st = (cmp, det, w)" by (cases st)
  show ?thesis
  proof (cases cmp)
    case Threw
    with st assms show ?thesis by (simp add: visit_def)
  next
    case Returned
    have "untouched w0 (snd (snd (invoke c ev args h (det, w))))" for h
      using assms st invoke_untouched[of w c ev args h det] by (simp add: untouched_trans)
    with st Returned assms show ?thesis by (simp add: visit_def Let_def)
  qed
qed

lemma visits_untouched:
  "untouched w0 (snd (snd st)) \<Longrightarrow> untouched w0 (snd (snd (foldl (visit c ev args) st ks)))"
  by (induction ks arbitrary: st) (simp_all add: visit_untouched)

lemma forEachCallback_untouched: "untouched w (snd (forEachCallback c ev args w))"
proof -
  have "untouched w (snd (snd (foldl (visit c ev args) (Returned, None, w)
          [0..<length (callbacksOf w c ev)])))"
    by (rule visits_untouched) (simp add: untouched_refl)
  then show ?thesis by (auto simp: forEachCallback_def split: prod.splits)
qed

lemma invokes_frame:
  "server (snd (forEachCallback c ev args w)) = server w"
  "received (snd (forEachCallback c ev args w)) = received w"
  "timers (snd (forEachCallback c ev args w)) = timers w"
  "nextHandle (snd (forEachCallback c ev args w)) = nextHandle w"
  "clock (snd (forEachCallback c ev args w)) = clock w"
  "promises (snd (forEachCallback c ev args w)) = promises w"
  "nextPromise (snd (forEachCallback c ev args w)) = nextPromise w"
  "serverListeners (snd (forEachCallback c ev args w)) = serverListeners w"
  "handlerBody (snd (forEachCallback c ev args w)) = handlerBody w"
  "socket (ui (snd (forEachCallback c ev args w))) = socket (ui w)"
  "emitted (snd (forEachCallback c ev args w)) c' ev' = emitted w c' ev'"
  "(sockets (snd (forEachCallback c ev args w)) c' = None) = (sockets w c' = None)"
  using forEachCallback_untouched[of w c ev args]
  by (simp_all add: untouched_emitted untouched_sockets) (simp_all add: untouched_def)

lemma emitted_received_update [simp]:
  "emitted (w\<lparr>received := x\<rparr>) c ev = emitted w c ev"
  by (simp add: emitted_def)

lemma emitted_server_update [simp]:
  "emitted (w\<lparr>server := x\<rparr>) c ev = emitted w c ev"
  by (simp add: emitted_def)

lemma receive_frame:
  "server (snd (receive w c ev args)) = server w"
  "timers (snd (receive w c ev args)) = timers w"
  "nextHandle (snd (receive w c ev args)) = nextHandle w"
  "clock (snd (receive w c ev args)) = clock w"
  "promises (snd (receive w c ev args)) = promises w"
  "nextPromise (snd (receive w c ev args)) = nextPromise w"
  "serverListeners (snd (receive w c ev args)) = serverListeners w"
  "handlerBody (snd (receive w c ev args)) = handlerBody w"
  "socket (ui (snd (receive w c ev args))) = socket (ui w)"
  "received (snd (receive w c ev args)) = received w @ [(c, ev, args)]"
  "emitted (snd (receive w c ev args)) c' ev' = emitted w c' ev'"
  "(sockets (snd (receive w c ev args)) c' = None) = (sockets w c' = None)"
  by (simp_all add: receive_def invokes_frame)

lemma roomId_null_forEachCallback:
  "roomId (ui w) = JNull \<Longrightarrow> roomId (ui (snd (forEachCallback c ev args w))) = JNull"
  using forEachCallback_untouched[of w c ev args] by (auto simp: untouched_def)

subsection \<open>Handlers that leave the walk alone\<close>

text \<open>
  An effect that returns and does not unregister handlers of the event: the event's array
  keeps the elements it has, in their places.
\<close>

fun keeps :: "string \<Rightarrow> effect \<Rightarrow> bool" where
  "keeps event (CallOn ev h) = True"
| "keeps event (CallOff ev cbo) = (ev \<noteq> event)"
| "keeps event Throw = False"

text \<open>
  A handler that, called with \<open>args\<close> during the walk for \<open>event\<close>, returns normally and
  calls \<^verbatim>\<open>off\<close> for other events only. The handlers of the facade are such handlers.
\<close>

definition modest :: "world \<Rightarrow> string \<Rightarrow> jsval list \<Rightarrow> handler \<Rightarrow> bool" where
  "modest w event args h =
     (case h of AppHandler n \<Rightarrow> list_all (keeps event) (handlerBody w n args) | _ \<Rightarrow> True)"

lemma callbacksOf_socketOn:
  "sockets w c = Some s \<Longrightarrow>
   callbacksOf (socketOn c ev h w) c' ev' =
     (if c' = c \<and> ev' = ev then callbacksOf w c ev @ [h] else callbacksOf w c' ev')"
  by (auto simp: callbacksOf_def socketOn_def on_def split: option.splits)

lemma callbacksOf_socketOff_other:
  "ev \<noteq> ev' \<Longrightarrow> callbacksOf (socketOff c ev cbo w) c' ev' = callbacksOf w c' ev'"
  by (auto simp: callbacksOf_def socketOff_def off_def split: option.splits)

lemma sockets_socketOn_Some: "sockets w c \<noteq> None \<Longrightarrow> sockets (socketOn c ev h w) c \<noteq> None"
  by (auto simp: socketOn_def split: option.splits)

lemma invoked_socketOn: "invoked (socketOn c ev h w) = invoked w"
  by (auto simp: socketOn_def split: option.splits)

lemma invoked_socketOff: "invoked (socketOff c ev cbo w) = invoked w"
  by (auto simp: socketOff_def split: option.splits)

lemma handlerBody_socketOn: "handlerBody (socketOn c ev h w) = handlerBody w"
  by (auto simp: socketOn_def split: option.splits)

lemma socketOn_many:
  "sockets w c \<noteq> None \<Longrightarrow>
   sockets (foldl (\<lambda>w' h. socketOn c ev h w') w hs) c \<noteq> None \<and>
   invoked (foldl (\<lambda>w' h. socketOn c ev h w') w hs) = invoked w \<and>
   handlerBody (foldl (\<lambda>w' h. socketOn c ev h w') w hs) = handlerBody w \<and>
   callbacksOf (foldl (\<lambda>w' h. socketOn c ev h w') w hs) c ev = callbacksOf w c ev @ hs"
proof (induction hs arbitrary: w)
  case Nil
  then show ?case by simp
next
  case (Cons h hs)
  from Cons.prems obtain s where s: "sockets w c = Some s" by blast
  have "sockets (socketOn c ev h w) c \<noteq> None" using Cons.prems by (rule sockets_socketOn_Some)
  from Cons.IH[OF this] show ?case
    by (simp add: invoked_socketOn handlerBody_socketOn callbacksOf_socketOn[OF s])
qed

text \<open>The body of a modest handler: the walk stays attached and the array keeps its prefix.\<close>

lemma runBody_modest:
  assumes "list_all (keeps event) fx" "sockets w c \<noteq> None"
  shows "\<exists>w'. runBody c event fx (None, w) = (Returned, None, w') \<and>
           prefix (callbacksOf w c event) (callbacksOf w' c event) \<and>
           invoked w' = invoked w \<and> handlerBody w' = handlerBody w \<and> sockets w' c \<noteq> None"
  using assms
proof (induction fx arbitrary: w)
  case Nil
  then show ?case by simp
next
  case (Cons f fx)
  show ?case
  proof (cases f)
    case (CallOn ev h)
    from Cons.prems(2) obtain s where s: "sockets w c = Some s" by blast
    let ?w1 = "socketOn c ev h w"
    have e1: "sockets ?w1 c \<noteq> None" using Cons.prems(2) by (rule sockets_socketOn_Some)
    have p1: "prefix (callbacksOf w c event) (callbacksOf ?w1 c event)"
      by (simp add: callbacksOf_socketOn[OF s])
    from Cons.prems(1) have "list_all (keeps event) fx" by simp
    from Cons.IH[OF this e1] obtain w' where
      r: "runBody c event fx (None, ?w1) = (Returned, None, w')"
      and p: "prefix (callbacksOf ?w1 c event) (callbacksOf w' c event)"
      and i: "invoked w' = invoked ?w1" and b: "handlerBody w' = handlerBody ?w1"
      and e: "sockets w' c \<noteq> None"
      by blast
    from p1 p have "prefix (callbacksOf w c event) (callbacksOf w' c event)" by (rule prefix_order.trans)
    with r i b e CallOn show ?thesis by (simp add: invoked_socketOn handlerBody_socketOn)
  next
    case (CallOff ev cbo)
    with Cons.prems(1) have ne: "ev \<noteq> event" and rest: "list_all (keeps event) fx" by simp_all
    let ?w1 = "socketOff c ev cbo w"
    have e1: "sockets ?w1 c \<noteq> None"
      using Cons.prems(2) by (auto simp: socketOff_def split: option.splits)
    have c1: "callbacksOf ?w1 c event = callbacksOf w c event"
      using ne by (rule callbacksOf_socketOff_other)
    have b1: "handlerBody ?w1 = handlerBody w" by (auto simp: socketOff_def split: option.splits)
    from Cons.IH[OF rest e1] obtain w' where
      r: "runBody c event fx (None, ?w1) = (Returned, None, w')"
      and p: "prefix (callbacksOf ?w1 c event) (callbacksOf w' c event)"
      and i: "invoked w' = invoked ?w1" and b: "handlerBody w' = handlerBody ?w1"
      and e: "sockets w' c \<noteq> None"
      by blast
    have run: "runBody c event (f # fx) (None, w) = runBody c event fx (None, ?w1)"
      using CallOff ne by (cases cbo) simp_all
    show ?thesis
      unfolding run using r p i b e by (simp add: c1 b1 invoked_socketOff)
  next
    case Throw
    with Cons.prems(1) show ?thesis by simp
  qed
qed

lemma invoke_modest:
  assumes "modest w event args h" "sockets w c \<noteq> None"
  shows "\<exists>w'. invoke c event args h (None, w) = (Returned, None, w') \<and>
           prefix (callbacksOf w c event) (callbacksOf w' c event) \<and>
           invoked w' = invoked w @ [(c, event, h, args)] \<and>
           handlerBody w' = handlerBody w \<and> sockets w' c \<noteq> None"
proof (cases h)
  case FacadeConnect
  then show ?thesis using assms(2)
    by (simp add: invoke_def callbacksOf_def toast_def setIsConnecting_def setIsConnected_def)
next
  case FacadeDisconnect
  then show ?thesis using assms(2)
    by (simp add: invoke_def callbacksOf_def toast_def setRoomId_def setIsConnected_def)
next
  case (AppHandler n)
  let ?w1 = "w\<lparr>invoked := invoked w @ [(c, event, h, args)]\<rparr>"
  from assms(1) AppHandler have m: "list_all (keeps event) (handlerBody w n args)"
    by (simp add: modest_def)
  have e1: "sockets ?w1 c \<noteq> None" using assms(2) by simp
  from runBody_modest[OF m e1] obtain w' where
    r: "runBody c event (handlerBody w n args) (None, ?w1) = (Returned, None, w')"
    and p: "prefix (callbacksOf ?w1 c event) (callbacksOf w' c event)"
    and i: "invoked w' = invoked ?w1" and b: "handlerBody w' = handlerBody ?w1"
    and e: "sockets w' c \<noteq> None"
    by blast
  have "callbacksOf ?w1 c event = callbacksOf w c event" by (simp add: callbacksOf_def)
  with r p i b e AppHandler show ?thesis by (simp add: invoke_def)
qed

text \<open>The walk over modest handlers visits the first \<open>k\<close> of them in order.\<close>

lemma visits_modest:
  assumes "\<forall>h\<in>set hs. modest w event args h" "sockets w c \<noteq> None"
    and "prefix hs (callbacksOf w c event)" "k \<le> length hs"
  shows "\<exists>w'. foldl (visit c event args) (Returned, None, w) [0..<k] = (Returned, None, w') \<and>
           prefix hs (callbacksOf w' c event) \<and>
           invoked w' = invoked w @ map (\<lambda>h. (c, event, h, args)) (take k hs) \<and>
           handlerBody w' = handlerBody w \<and> sockets w' c \<noteq> None"
  using assms(4)
proof (induction k)
  case 0
  then show ?case using assms(2,3) by simp
next
  case (Suc k)
  then have kl: "k < length hs" by simp
  from Suc.IH kl obtain w1 where
    f: "foldl (visit c event args) (Returned, None, w) [0..<k] = (Returned, None, w1)"
    and p: "prefix hs (callbacksOf w1 c event)"
    and i: "invoked w1 = invoked w @ map (\<lambda>h. (c, event, h, args)) (take k hs)"
    and b: "handlerBody w1 = handlerBody w" and e: "sockets w1 c \<noteq> None"
    by auto
  from p obtain zs where zs: "callbacksOf w1 c event = hs @ zs" by (auto simp: prefix_def)
  have len: "k < length (callbacksOf w1 c event)" using kl zs by simp
  have nth: "callbacksOf w1 c event ! k = hs ! k" using kl zs by (simp add: nth_append)
  have "modest w event args (hs ! k)" using assms(1) kl by simp
  then have m: "modest w1 event args (hs ! k)" by (cases "hs ! k") (simp_all add: modest_def b)
  from invoke_modest[OF m e] obtain w' where
    iv: "invoke c event args (hs ! k) (None, w1) = (Returned, None, w')"
    and p': "prefix (callbacksOf w1 c event) (callbacksOf w' c event)"
    and i': "invoked w' = invoked w1 @ [(c, event, hs ! k, args)]"
    and b': "handlerBody w' = handlerBody w1" and e': "sockets w' c \<noteq> None"
    by blast
  have step: "foldl (visit c event args) (Returned, None, w) [0..<Suc k] = (Returned, None, w')"
    by (simp add: f visit_def Let_def len nth iv)
  have pp: "prefix hs (callbacksOf w' c event)" using p p' by (rule prefix_order.trans)
  have ii: "invoked w' = invoked w @ map (\<lambda>h. (c, event, h, args)) (take (Suc k) hs)"
    using i i' kl by (simp add: take_Suc_conv_app_nth)
  show ?case using step pp ii b b' e' by simp
qed

lemma forEachCallback_modest:
  assumes "\<forall>h\<in>set (callbacksOf w c event). modest w event args h" "sockets w c \<noteq> None"
  shows "fst (forEachCallback c event args w) = Returned \<and>
         invoked (snd (forEachCallback c event args w)) =
           invoked w @ map (\<lambda>h. (c, event, h, args)) (callbacksOf w c event)"
proof -
  from visits_modest[OF assms, of "length (callbacksOf w c event)"]
  obtain w' where
    "foldl (visit c event args) (Returned, None, w) [0..<length (callbacksOf w c event)] =
       (Returned, None, w')"
    and "invoked w' = invoked w @ map (\<lambda>h. (c, event, h, args)) (callbacksOf w c event)"
    by auto
  then show ?thesis by (simp add: forEachCallback_def)
qed

text \<open>
  Claim C8, as amended. On an Event Channel, a received event of a given name invokes every
  handler registered for that name through \<open>on\<close>, each once, in registration order (first
  the handlers registered before, then the handlers \<open>hs\<close> in the order of their
  registration) and no other handler, and \<open>receive\<close> returns normally, provided that each
  of these handlers, called with the event's arguments, returns normally and does not
  unregister handlers of that name.
\<close>

theorem handlers_invoked_in_registration_order:
  assumes "sockets w c \<noteq> None"
    and "\<forall>h\<in>set (callbacksOf w c event @ hs). modest w event args h"
  shows "fst (receive (foldl (\<lambda>w' h. socketOn c event h w') w hs) c event args) = Returned \<and>
         invoked (snd (receive (foldl (\<lambda>w' h. socketOn c event h w') w hs) c event args)) =
           invoked w @ map (\<lambda>h. (c, event, h, args)) (callbacksOf w c event @ hs)"
proof -
  let ?w1 = "foldl (\<lambda>w' h. socketOn c event h w') w hs"
  let ?w2 = "?w1\<lparr>received := received ?w1 @ [(c, event, args)]\<rparr>"
  from socketOn_many[OF assms(1), of event hs]
  have s1: "sockets ?w1 c \<noteq> None" and i1: "invoked ?w1 = invoked w"
    and b1: "handlerBody ?w1 = handlerBody w"
    and c1: "callbacksOf ?w1 c event = callbacksOf w c event @ hs"
    by simp_all
  have s2: "sockets ?w2 c \<noteq> None" using s1 by simp
  have c2: "callbacksOf ?w2 c event = callbacksOf w c event @ hs"
    using c1 by (simp add: callbacksOf_def)
  have mm: "modest ?w2 event args h = modest w event args h" for h
    by (cases h) (simp_all add: modest_def b1)
  have m2: "\<forall>h\<in>set (callbacksOf ?w2 c event). modest ?w2 event args h"
    using assms(2) unfolding c2 mm by simp
  from forEachCallback_modest[OF m2 s2] show ?thesis
    by (simp add: receive_def c2 i1)
qed

lemma scenario_socket:
  "sockets (initSocket ''u1'' initialWorld) ''u1'' =
     Some \<lparr>sid = ''u1'', connected = True,
           listeners = [''connect'' \<mapsto> [FacadeConnect], ''disconnect'' \<mapsto> [FacadeDisconnect]],
           emitters = Map.empty\<rparr>"
  "invoked (initSocket ''u1'' initialWorld) = []"
  by (simp_all add: initSocket_def setSocket_def socketOn_def createMockSocket_def serverOn_def
      setTimeout_def initialWorld_def on_def)

theorem handlers_invoked_in_registration_order_witness:
  "sockets ((initSocket ''u1'' initialWorld)
      \<lparr>handlerBody := (\<lambda>n args. if n = 2 then [CallOn ''player-joined'' (AppHandler 4),
                                                  CallOff ''player-left'' None] else [])\<rparr>) ''u1'' \<noteq> None \<and>
   modest ((initSocket ''u1'' initialWorld)
      \<lparr>handlerBody := (\<lambda>n args. if n = 2 then [CallOn ''player-joined'' (AppHandler 4),
                                                  CallOff ''player-left'' None] else [])\<rparr>)
      ''player-joined'' [JStr ''x''] (AppHandler 2) \<and>
   modest ((initSocket ''u1'' initialWorld)
      \<lparr>handlerBody := (\<lambda>n args. if n = 2 then [CallOn ''player-joined'' (AppHandler 4),
                                                  CallOff ''player-left'' None] else [])\<rparr>)
      ''player-joined'' [JStr ''x''] (AppHandler 3) \<and>
   fst (receive (foldl (\<lambda>w' h. socketOn ''u1'' ''player-joined'' h w')
                   ((initSocket ''u1'' initialWorld)
                      \<lparr>handlerBody := (\<lambda>n args. if n = 2 then [CallOn ''player-joined'' (AppHandler 4),
                                                  CallOff ''player-left'' None] else [])\<rparr>)
                   [AppHandler 2, AppHandler 3])
          ''u1'' ''player-joined'' [JStr ''x'']) = Returned \<and>
   invoked (snd (receive (foldl (\<lambda>w' h. socketOn ''u1'' ''player-joined'' h w')
                   ((initSocket ''u1'' initialWorld)
                      \<lparr>handlerBody := (\<lambda>n args. if n = 2 then [CallOn ''player-joined'' (AppHandler 4),
                                                  CallOff ''player-left'' None] else [])\<rparr>)
                   [AppHandler 2, AppHandler 3])
          ''u1'' ''player-joined'' [JStr ''x''])) =
     [(''u1'', ''player-joined'', AppHandler 2, [JStr ''x'']),
      (''u1'', ''player-joined'', AppHandler 3, [JStr ''x''])]"
proof -
  let ?w = "(initSocket ''u1'' initialWorld)
      \<lparr>handlerBody := (\<lambda>n args. if n = 2 then [CallOn ''player-joined'' (AppHandler 4),
                                                  CallOff ''player-left'' None] else [])\<rparr>"
  have s: "sockets ?w ''u1'' \<noteq> None" by (simp add: scenario_socket)
  have c: "callbacksOf ?w ''u1'' ''player-joined'' = []"
    by (simp add: callbacksOf_def scenario_socket)
  have i: "invoked ?w = []" by (simp add: scenario_socket)
  have m2: "modest ?w ''player-joined'' [JStr ''x''] (AppHandler 2)" by (simp add: modest_def)
  have m3: "modest ?w ''player-joined'' [JStr ''x''] (AppHandler 3)" by (simp add: modest_def)
  have m: "\<forall>h\<in>set (callbacksOf ?w ''u1'' ''player-joined'' @ [AppHandler 2, AppHandler 3]).
             modest ?w ''player-joined'' [JStr ''x''] h"
    using m2 m3 by (simp add: c)
  from handlers_invoked_in_registration_order [OF s m] s m2 m3
  show ?thesis by (simp add: c i)
qed

text \<open>
  Claim C8 as stated fails: \<^verbatim>\<open>receive\<close> walks the array that \<^verbatim>\<open>off\<close> splices, and nothing
  catches what a handler throws. With the handlers 2 and 3 registered in this order for
  \<^verbatim>\<open>player-joined\<close>, the handler 3 is not invoked for a received event when the handler 2
  unregisters itself (the array shrinks to one element and the walk ends at index 1), nor
  when the handler 2 throws (the exception leaves \<^verbatim>\<open>receive\<close>).
\<close>

theorem handlers_invoked_counterexample:
  "callbacksOf
     (socketOn ''u1'' ''player-joined'' (AppHandler 3)
       (socketOn ''u1'' ''player-joined'' (AppHandler 2)
         ((initSocket ''u1'' initialWorld)
            \<lparr>handlerBody := (\<lambda>n args. if n = 2 then [CallOff ''player-joined'' (Some (AppHandler 2))]
                                       else [])\<rparr>)))
     ''u1'' ''player-joined'' = [AppHandler 2, AppHandler 3] \<and>
   fst (receive
     (socketOn ''u1'' ''player-joined'' (AppHandler 3)
       (socketOn ''u1'' ''player-joined'' (AppHandler 2)
         ((initSocket ''u1'' initialWorld)
            \<lparr>handlerBody := (\<lambda>n args. if n = 2 then [CallOff ''player-joined'' (Some (AppHandler 2))]
                                       else [])\<rparr>)))
     ''u1'' ''player-joined'' [JStr ''x'']) = Returned \<and>
   invoked (snd (receive
     (socketOn ''u1'' ''player-joined'' (AppHandler 3)
       (socketOn ''u1'' ''player-joined'' (AppHandler 2)
         ((initSocket ''u1'' initialWorld)
            \<lparr>handlerBody := (\<lambda>n args. if n = 2 then [CallOff ''player-joined'' (Some (AppHandler 2))]
                                       else [])\<rparr>)))
     ''u1'' ''player-joined'' [JStr ''x''])) =
     [(''u1'', ''player-joined'', AppHandler 2, [JStr ''x''])] \<and>
   fst (receive
     (socketOn ''u1'' ''player-joined'' (AppHandler 3)
       (socketOn ''u1'' ''player-joined'' (AppHandler 2)
         ((initSocket ''u1'' initialWorld)\<lparr>handlerBody := (\<lambda>n args. if n = 2 then [Throw] else [])\<rparr>)))
     ''u1'' ''player-joined'' [JStr ''x'']) = Threw \<and>
   invoked (snd (receive
     (socketOn ''u1'' ''player-joined'' (AppHandler 3)
       (socketOn ''u1'' ''player-joined'' (AppHandler 2)
         ((initSocket ''u1'' initialWorld)\<lparr>handlerBody := (\<lambda>n args. if n = 2 then [Throw] else [])\<rparr>)))
     ''u1'' ''player-joined'' [JStr ''x''])) =
     [(''u1'', ''player-joined'', AppHandler 2, [JStr ''x''])]"
  by (simp add: receive_def forEachCallback_def visit_def invoke_def callbacksOf_def
      socketOn_def socketOff_def on_def off_def scenario_socket Let_def upt_rec)

subsection \<open>Delivery of drawing updates\<close>

lemma runServerHandler_frame:
  "server (snd (runServerHandler w h data)) = server w"
  "emitted (snd (runServerHandler w h data)) c' ev' = emitted w c' ev'"
  "(sockets (snd (runServerHandler w h data)) c' = None) = (sockets w c' = None)"
  "timers (snd (runServerHandler w h data)) = timers w"
  "nextHandle (snd (runServerHandler w h data)) = nextHandle w"
  "clock (snd (runServerHandler w h data)) = clock w"
  "promises (snd (runServerHandler w h data)) = promises w"
  "nextPromise (snd (runServerHandler w h data)) = nextPromise w"
  "serverListeners (snd (runServerHandler w h data)) = serverListeners w"
  "socket (ui (snd (runServerHandler w h data))) = socket (ui w)"
  by (simp_all add: runServerHandler_def receive_frame split: serverHandler.splits option.splits)

lemma emitServer_fold_frame:
  "server (foldl (\<lambda>w' l. if fst l = name then snd (runServerHandler w' (snd l) data) else w') w ls) = server w"
  "emitted (foldl (\<lambda>w' l. if fst l = name then snd (runServerHandler w' (snd l) data) else w') w ls) c' ev' = emitted w c' ev'"
  "(sockets (foldl (\<lambda>w' l. if fst l = name then snd (runServerHandler w' (snd l) data) else w') w ls) c' = None) = (sockets w c' = None)"
  "timers (foldl (\<lambda>w' l. if fst l = name then snd (runServerHandler w' (snd l) data) else w') w ls) = timers w"
  "nextHandle (foldl (\<lambda>w' l. if fst l = name then snd (runServerHandler w' (snd l) data) else w') w ls) = nextHandle w"
  "clock (foldl (\<lambda>w' l. if fst l = name then snd (runServerHandler w' (snd l) data) else w') w ls) = clock w"
  "promises (foldl (\<lambda>w' l. if fst l = name then snd (runServerHandler w' (snd l) data) else w') w ls) = promises w"
  "nextPromise (foldl (\<lambda>w' l. if fst l = name then snd (runServerHandler w' (snd l) data) else w') w ls) = nextPromise w"
  "serverListeners (foldl (\<lambda>w' l. if fst l = name then snd (runServerHandler w' (snd l) data) else w') w ls) = serverListeners w"
  "socket (ui (foldl (\<lambda>w' l. if fst l = name then snd (runServerHandler w' (snd l) data) else w') w ls)) = socket (ui w)"
  by (induction ls arbitrary: w; simp add: runServerHandler_frame)+

lemma emitServer_frame:
  "server (emitServer w name data) = server w"
  "emitted (emitServer w name data) c' ev' = emitted w c' ev'"
  "(sockets (emitServer w name data) c' = None) = (sockets w c' = None)"
  "timers (emitServer w name data) = timers w"
  "nextHandle (emitServer w name data) = nextHandle w"
  "clock (emitServer w name data) = clock w"
  "promises (emitServer w name data) = promises w"
  "nextPromise (emitServer w name data) = nextPromise w"
  "serverListeners (emitServer w name data) = serverListeners w"
  "socket (ui (emitServer w name data)) = socket (ui w)"
  by (simp_all add: emitServer_def emitServer_fold_frame)

lemma drawing_fold_socket:
  assumes "jsField data ''roomId'' = JStr r" "r \<noteq> []"
  shows "foldl (\<lambda>w' l. if fst l = ''room:*:drawing-update'' then snd (runServerHandler w' (snd l) data) else w') w
           (socketSubscriptions c) =
         (if getRoomForClient (server w) c = Some r then snd (receive w c ''drawing-update'' [data]) else w)"
proof -
  have t: "jsTruthy data" using assms by (cases data) auto
  show ?thesis
    using assms t
    by (auto simp: socketSubscriptions_def runServerHandler_def split: option.splits)
qed

lemma drawing_fold_received:
  assumes "jsField data ''roomId'' = JStr r" "r \<noteq> []"
  shows "received (foldl (\<lambda>w' l. if fst l = ''room:*:drawing-update'' then snd (runServerHandler w' (snd l) data) else w') w
                     (concat (map socketSubscriptions ids))) =
         received w @ concat (map (\<lambda>c. if getRoomForClient (server w) c = Some r
                                         then [(c, ''drawing-update'', [data])] else []) ids)"
proof (induction ids arbitrary: w)
  case Nil
  then show ?case by simp
next
  case (Cons c ids)
  show ?case
    by (simp add: drawing_fold_socket[OF assms] Cons.IH receive_frame)
qed

lemma filter_single_delivery:
  "distinct ids \<Longrightarrow>
   filter (\<lambda>x. fst x = c) (concat (map (\<lambda>c'. if P c' then [(c', ev, a)] else []) ids)) =
     (if c \<in> set ids \<and> P c then [(c, ev, a)] else [])"
  by (induction ids) auto

lemma not_drawing_names:
  "\<not> strIncludes ''create-room'' ''drawing-action''"
  "\<not> strIncludes ''join-room'' ''drawing-action''"
  "\<not> strIncludes ''leave-room'' ''drawing-action''"
  by simp_all

lemma received_recordEmit: "received (recordEmit c ev args w) = received w"
  by (simp add: recordEmit_def split: option.splits)

lemma server_recordEmit: "server (recordEmit c ev args w) = server w"
  by (simp add: recordEmit_def split: option.splits)

lemma subscribed_initial: "subscribed initialWorld []"
  by (simp add: subscribed_def initialWorld_def)

lemma subscribed_createMockSocket:
  "subscribed w ids \<Longrightarrow> c \<notin> set ids \<Longrightarrow> subscribed (createMockSocket c w) (ids @ [c])"
  by (simp add: subscribed_def createMockSocket_def serverOn_def setTimeout_def
      socketSubscriptions_def)

text \<open>
  Claim C9. When a socket emits a drawing action whose data names the room \<open>r\<close>, the
  update is broadcast, and every connected client whose room by the Membership Index is
  \<open>r\<close> receives \<^verbatim>\<open>drawing-update\<close> with that data exactly once on its channel; every other
  client, a client in no room in particular, receives nothing. The registry is unchanged.
\<close>

theorem drawing_update_reaches_room_members_once:
  assumes "subscribed w ids"
    and "strIncludes event ''drawing-action''"
    and "jsField data ''roomId'' = JStr r" and "r \<noteq> []"
  shows "\<exists>w'. emit e w sender event (data # rest) = Some w' \<and>
           server w' = server w \<and>
           (\<forall>c. receivedBy w' c =
                 receivedBy w c @
                   (if c \<in> set ids \<and> getRoomForClient (server w) c = Some r
                    then [(''drawing-update'', [data])] else []))"
proof -
  have ne: "event \<noteq> ''create-room''" "event \<noteq> ''join-room''" "event \<noteq> ''leave-room''"
    using assms(2) not_drawing_names by auto
  have t: "jsTruthy data" using assms(3) by (cases data) auto
  let ?w1 = "broadcastToRoom w (jsField data ''roomId'') ''drawing-update'' data"
  have em: "emit e w sender event (data # rest) = Some (recordEmit sender event (data # rest) ?w1)"
    using ne assms(2,3,4) t by (simp add: emit_def firstArg_def Let_def)
  have rc: "received ?w1 = received w @ concat (map (\<lambda>c. if getRoomForClient (server w) c = Some r
                                         then [(c, ''drawing-update'', [data])] else []) ids)"
    using assms(1) drawing_fold_received[OF assms(3,4), of w ids]
    by (simp add: broadcastToRoom_def emitServer_def subscribed_def)
  have d: "distinct ids" using assms(1) by (simp add: subscribed_def)
  have "receivedBy ?w1 c =
          receivedBy w c @ (if c \<in> set ids \<and> getRoomForClient (server w) c = Some r
                            then [(''drawing-update'', [data])] else [])" for c
    unfolding receivedBy_def rc
    by (simp add: filter_single_delivery[OF d])
  then show ?thesis
    unfolding em
    by (simp add: server_recordEmit received_recordEmit receivedBy_def
        broadcastToRoom_def emitServer_frame)
qed

theorem drawing_update_reaches_room_members_once_witness:
  "subscribed
     (createMockSocket ''C'' (createMockSocket ''B'' (createMockSocket ''A'' initialWorld))
        \<lparr>server := initialRegistry
           \<lparr>rooms := [(''AB12CD'', \<lparr>members = [''A'', ''B''], createdAt = 0\<rparr>)],
            clientRooms := [''A'' \<mapsto> ''AB12CD'', ''B'' \<mapsto> ''AB12CD'']\<rparr>\<rparr>)
     [''A'', ''B'', ''C''] \<and>
   (\<exists>w'. emit \<lparr>regPolicy = \<lparr>maxMembers = 8, isExpired = (\<lambda>now rm. False)\<rparr>, roomCodes = []\<rparr>
            (createMockSocket ''C'' (createMockSocket ''B'' (createMockSocket ''A'' initialWorld))
               \<lparr>server := initialRegistry
                  \<lparr>rooms := [(''AB12CD'', \<lparr>members = [''A'', ''B''], createdAt = 0\<rparr>)],
                   clientRooms := [''A'' \<mapsto> ''AB12CD'', ''B'' \<mapsto> ''AB12CD'']\<rparr>\<rparr>)
            ''A'' ''drawing-action'' [JObj [(''roomId'', JStr ''AB12CD''), (''stroke'', JStr ''s'')]] =
          Some w' \<and>
          receivedBy w' ''B'' =
            [(''drawing-update'', [JObj [(''roomId'', JStr ''AB12CD''), (''stroke'', JStr ''s'')]])] \<and>
          receivedBy w' ''C'' = [])"
proof -
  let ?w = "createMockSocket ''C'' (createMockSocket ''B'' (createMockSocket ''A'' initialWorld))
        \<lparr>server := initialRegistry
           \<lparr>rooms := [(''AB12CD'', \<lparr>members = [''A'', ''B''], createdAt = 0\<rparr>)],
            clientRooms := [''A'' \<mapsto> ''AB12CD'', ''B'' \<mapsto> ''AB12CD'']\<rparr>\<rparr>"
  let ?data = "JObj [(''roomId'', JStr ''AB12CD''), (''stroke'', JStr ''s'')]"
  have s: "subscribed ?w [''A'', ''B'', ''C'']"
    by (simp add: subscribed_def createMockSocket_def serverOn_def setTimeout_def
        socketSubscriptions_def initialWorld_def)
  have i: "strIncludes ''drawing-action'' ''drawing-action''" by simp
  have f: "jsField ?data ''roomId'' = JStr ''AB12CD''" by simp
  have n: "''AB12CD'' \<noteq> []" by simp
  have r: "receivedBy ?w ''B'' = []" "receivedBy ?w ''C'' = []"
    by (simp_all add: receivedBy_def createMockSocket_def serverOn_def setTimeout_def
        initialWorld_def)
  have g: "getRoomForClient (server ?w) ''B'' = Some ''AB12CD''"
    "getRoomForClient (server ?w) ''C'' = None"
    by (simp_all add: getRoomForClient_def initialRegistry_def)
  from drawing_update_reaches_room_members_once [OF s i f n, of _ "''A''" "[]"]
  obtain w' where "emit \<lparr>regPolicy = \<lparr>maxMembers = 8, isExpired = (\<lambda>now rm. False)\<rparr>, roomCodes = []\<rparr>
      ?w ''A'' ''drawing-action'' [?data] = Some w'"
    and "\<forall>c. receivedBy w' c = receivedBy ?w c @
           (if c \<in> set [''A'', ''B'', ''C''] \<and> getRoomForClient (server ?w) c = Some ''AB12CD''
            then [(''drawing-update'', [?data])] else [])"
    by blast
  then have "emit \<lparr>regPolicy = \<lparr>maxMembers = 8, isExpired = (\<lambda>now rm. False)\<rparr>, roomCodes = []\<rparr>
      ?w ''A'' ''drawing-action'' [?data] = Some w' \<and>
      receivedBy w' ''B'' = [(''drawing-update'', [?data])] \<and> receivedBy w' ''C'' = []"
    using r g by simp
  with s show ?thesis by blast
qed

section \<open>Properties of the requests\<close>

subsection \<open>Registry calls of the mock socket\<close>

lemma dispatchSignal_frame:
  "server (dispatchSignal w sg) = server w"
  "emitted (dispatchSignal w sg) c' ev' = emitted w c' ev'"
  "(sockets (dispatchSignal w sg) c' = None) = (sockets w c' = None)"
  "timers (dispatchSignal w sg) = timers w"
  "nextHandle (dispatchSignal w sg) = nextHandle w"
  "clock (dispatchSignal w sg) = clock w"
  "promises (dispatchSignal w sg) = promises w"
  "nextPromise (dispatchSignal w sg) = nextPromise w"
  "serverListeners (dispatchSignal w sg) = serverListeners w"
  "socket (ui (dispatchSignal w sg)) = socket (ui w)"
  by (simp_all add: dispatchSignal_def emitServer_frame split: signal.splits)

lemma dispatchSignals_frame:
  "server (foldl dispatchSignal w sigs) = server w"
  "emitted (foldl dispatchSignal w sigs) c' ev' = emitted w c' ev'"
  "(sockets (foldl dispatchSignal w sigs) c' = None) = (sockets w c' = None)"
  "timers (foldl dispatchSignal w sigs) = timers w"
  "nextHandle (foldl dispatchSignal w sigs) = nextHandle w"
  "clock (foldl dispatchSignal w sigs) = clock w"
  "promises (foldl dispatchSignal w sigs) = promises w"
  "nextPromise (foldl dispatchSignal w sigs) = nextPromise w"
  "serverListeners (foldl dispatchSignal w sigs) = serverListeners w"
  "socket (ui (foldl dispatchSignal w sigs)) = socket (ui w)"
  by (induction sigs arbitrary: w; simp add: dispatchSignal_frame)+

lemma serverLeaveRoom_frame:
  "server (serverLeaveRoom w c) = fst (leaveRoom (server w) c)"
  "emitted (serverLeaveRoom w c) c' ev' = emitted w c' ev'"
  "(sockets (serverLeaveRoom w c) c' = None) = (sockets w c' = None)"
  "timers (serverLeaveRoom w c) = timers w"
  "nextHandle (serverLeaveRoom w c) = nextHandle w"
  "clock (serverLeaveRoom w c) = clock w"
  "promises (serverLeaveRoom w c) = promises w"
  "nextPromise (serverLeaveRoom w c) = nextPromise w"
  "serverListeners (serverLeaveRoom w c) = serverListeners w"
  "socket (ui (serverLeaveRoom w c)) = socket (ui w)"
  by (simp_all add: serverLeaveRoom_def dispatchSignals_frame split: prod.splits)

lemma serverJoinRoom_frame:
  "fst (serverJoinRoom e w c (JStr r)) = fst (joinRoom (regPolicy e) (clock w) (server w) c r)"
  "server (snd (serverJoinRoom e w c (JStr r))) = fst (snd (joinRoom (regPolicy e) (clock w) (server w) c r))"
  "emitted (snd (serverJoinRoom e w c v)) c' ev' = emitted w c' ev'"
  "(sockets (snd (serverJoinRoom e w c v)) c' = None) = (sockets w c' = None)"
  "timers (snd (serverJoinRoom e w c v)) = timers w"
  "nextHandle (snd (serverJoinRoom e w c v)) = nextHandle w"
  "clock (snd (serverJoinRoom e w c v)) = clock w"
  "promises (snd (serverJoinRoom e w c v)) = promises w"
  "nextPromise (snd (serverJoinRoom e w c v)) = nextPromise w"
  "serverListeners (snd (serverJoinRoom e w c v)) = serverListeners w"
  "socket (ui (snd (serverJoinRoom e w c v))) = socket (ui w)"
  by (simp_all add: serverJoinRoom_def dispatchSignals_frame split: prod.splits jsval.splits)

lemma recordEmit_frame:
  "server (recordEmit c ev args w) = server w"
  "timers (recordEmit c ev args w) = timers w"
  "nextHandle (recordEmit c ev args w) = nextHandle w"
  "clock (recordEmit c ev args w) = clock w"
  "promises (recordEmit c ev args w) = promises w"
  "nextPromise (recordEmit c ev args w) = nextPromise w"
  "serverListeners (recordEmit c ev args w) = serverListeners w"
  "received (recordEmit c ev args w) = received w"
  "ui (recordEmit c ev args w) = ui w"
  by (simp_all add: recordEmit_def split: option.splits)

lemma emitted_recordEmit:
  "emitted (recordEmit c ev args w) c' ev' =
     (if c' = c \<and> ev' = ev \<and> sockets w c \<noteq> None then emitted w c ev @ [args]
      else emitted w c' ev')"
  by (auto simp: emitted_def recordEmit_def split: option.splits)

lemma emitted_sockets_cong: "sockets w' = sockets w \<Longrightarrow> emitted w' c ev = emitted w c ev"
  by (simp add: emitted_def)

text \<open>The three request branches of emit, as equations.\<close>

lemma emit_leave_room:
  "emit e w c ''leave-room'' args = Some (recordEmit c ''leave-room'' args (serverLeaveRoom w c))"
  by (simp add: emit_def)

lemma emit_join_room:
  "emit e w c ''join-room'' [v, JFun cb] =
     (let w1 = w\<lparr>server := registerCallback (server w) c ''join-room'' cb\<rparr>;
          w2 = serverLeaveRoom w1 c;
          w3 = w2\<lparr>server := loadPersistentRooms (server w2)\<rparr>;
          res = serverJoinRoom e w3 c v
      in Some (recordEmit c ''join-room'' [v, JFun cb]
                 (setTimeout (ExecuteAck c ''join-room'' (JBool (fst res))) 300 (snd res))))"
  by (simp add: emit_def lastArg_def firstArg_def Let_def split: prod.splits)

lemma emit_create_room:
  "emit e w c ''create-room'' [JFun cb] =
     (case createRoom (clock w) (registerCallback (server w) c ''create-room'' cb) c (roomCodes e) of
        None \<Rightarrow> None
      | Some (r, reg') \<Rightarrow>
          Some (recordEmit c ''create-room'' [JFun cb]
                  (setTimeout (ExecuteAck c ''create-room'' (JStr r)) 300 (w\<lparr>server := reg'\<rparr>))))"
  by (simp add: emit_def lastArg_def split: option.splits)

subsection \<open>Coherent registries\<close>

lemma deriveIndex_coherent:
  assumes "uniqueRooms reg" "consistent reg"
  shows "deriveIndex (rooms reg) = clientRooms reg"
proof
  fix c
  from assms(2) have A: "\<And>d r. clientRooms reg d = Some r \<Longrightarrow> \<exists>rm. map_of (rooms reg) r = Some rm \<and> d \<in> set (members rm)"
    and B: "\<And>r rm d. map_of (rooms reg) r = Some rm \<Longrightarrow> d \<in> set (members rm) \<Longrightarrow> clientRooms reg d = Some r"
    unfolding consistent_iff by blast+
  from assms(1) have D: "distinct (map fst (rooms reg))" by (simp add: uniqueRooms_def)
  show "deriveIndex (rooms reg) c = clientRooms reg c"
  proof (cases "find (\<lambda>(r, rm). c \<in> set (members rm)) (rooms reg)")
    case None
    then have no: "\<And>r rm. (r, rm) \<in> set (rooms reg) \<Longrightarrow> c \<notin> set (members rm)"
      by (auto simp: find_None_iff)
    have "clientRooms reg c = None"
    proof (rule ccontr)
      assume "clientRooms reg c \<noteq> None"
      then obtain r where "clientRooms reg c = Some r" by blast
      from A[OF this] obtain rm where "map_of (rooms reg) r = Some rm" "c \<in> set (members rm)" by blast
      with no[of r rm] show False by (auto dest: map_of_SomeD)
    qed
    with None show ?thesis by (simp add: deriveIndex_def)
  next
    case (Some p)
    obtain r rm where p: "p = (r, rm)" by (cases p)
    from Some p have "(r, rm) \<in> set (rooms reg)" "c \<in> set (members rm)"
      by (auto simp: find_Some_iff in_set_conv_nth)
    with D have "map_of (rooms reg) r = Some rm" "c \<in> set (members rm)" by simp_all
    from B[OF this] Some p show ?thesis by (simp add: deriveIndex_def)
  qed
qed

lemma loadPersistentRooms_coherent: "coherent reg \<Longrightarrow> loadPersistentRooms reg = reg"
  by (simp add: coherent_def loadPersistentRooms_def synced_def deriveIndex_coherent)

lemma coherent_initial: "coherent initialRegistry"
  by (simp add: coherent_def consistent_initial)
     (simp add: uniqueRooms_def synced_def load_def initialRegistry_def)

subsection \<open>The round trip through the Persistence Store\<close>

lemma load_save: "load (save s reg) = s"
  by (simp add: load_def save_def)

lemma load_loadPersistentRooms: "load (loadPersistentRooms reg) = load reg"
  by (simp add: load_def loadPersistentRooms_def)

lemma loadPersistentRooms_idem:
  "loadPersistentRooms (loadPersistentRooms reg) = loadPersistentRooms reg"
  by (simp add: loadPersistentRooms_def load_def)

text \<open>
  Claim C7. For every snapshot \<open>s\<close>, \<open>load\<close> after \<open>save s\<close> returns \<open>s\<close>, and a fresh
  registry that loads it holds the rooms and member lists of \<open>s\<close>. Loading twice is the
  same as loading once, and loading leaves the store as it is. For a registry with one
  entry per room whose index and member lists are consistent, saving its rooms and loading
  them into a fresh registry reproduces its rooms and its Membership Index.
\<close>

theorem snapshot_round_trip:
  "load (save s reg) = s \<and>
   rooms (loadPersistentRooms (save s initialRegistry)) = s \<and>
   (\<forall>r. getClientsInRoom (loadPersistentRooms (save s initialRegistry)) r =
          (case map_of s r of None \<Rightarrow> [] | Some rm \<Rightarrow> members rm)) \<and>
   loadPersistentRooms (loadPersistentRooms reg) = loadPersistentRooms reg \<and>
   load (loadPersistentRooms reg) = load reg \<and>
   (uniqueRooms reg0 \<and> consistent reg0 \<longrightarrow>
      rooms (loadPersistentRooms (save (rooms reg0) initialRegistry)) = rooms reg0 \<and>
      clientRooms (loadPersistentRooms (save (rooms reg0) initialRegistry)) = clientRooms reg0)"
proof (intro conjI allI impI)
  show "load (save s reg) = s" by (rule load_save)
  show "rooms (loadPersistentRooms (save s initialRegistry)) = s"
    by (simp add: loadPersistentRooms_def load_save)
  show "getClientsInRoom (loadPersistentRooms (save s initialRegistry)) r =
          (case map_of s r of None \<Rightarrow> [] | Some rm \<Rightarrow> members rm)" for r
    by (simp add: getClientsInRoom_def loadPersistentRooms_def load_save)
  show "loadPersistentRooms (loadPersistentRooms reg) = loadPersistentRooms reg"
    by (rule loadPersistentRooms_idem)
  show "load (loadPersistentRooms reg) = load reg" by (rule load_loadPersistentRooms)
next
  assume g: "uniqueRooms reg0 \<and> consistent reg0"
  show "rooms (loadPersistentRooms (save (rooms reg0) initialRegistry)) = rooms reg0"
    by (simp add: loadPersistentRooms_def load_save)
  from g have "deriveIndex (rooms reg0) = clientRooms reg0" by (simp add: deriveIndex_coherent)
  then show "clientRooms (loadPersistentRooms (save (rooms reg0) initialRegistry)) = clientRooms reg0"
    by (simp add: loadPersistentRooms_def load_save)
qed

theorem snapshot_round_trip_witness:
  "uniqueRooms \<lparr>rooms = [(''AB12CD'', \<lparr>members = [''A'', ''B''], createdAt = 0\<rparr>)],
                clientRooms = [''A'' \<mapsto> ''AB12CD'', ''B'' \<mapsto> ''AB12CD''],
                store = None, pendingAcks = Map.empty\<rparr> \<and>
   consistent \<lparr>rooms = [(''AB12CD'', \<lparr>members = [''A'', ''B''], createdAt = 0\<rparr>)],
                clientRooms = [''A'' \<mapsto> ''AB12CD'', ''B'' \<mapsto> ''AB12CD''],
                store = None, pendingAcks = Map.empty\<rparr> \<and>
   clientRooms (loadPersistentRooms
      (save [(''AB12CD'', \<lparr>members = [''A'', ''B''], createdAt = 0\<rparr>)] initialRegistry)) =
     [''A'' \<mapsto> ''AB12CD'', ''B'' \<mapsto> ''AB12CD'']"
proof -
  let ?reg = "\<lparr>rooms = [(''AB12CD'', \<lparr>members = [''A'', ''B''], createdAt = 0\<rparr>)],
                clientRooms = [''A'' \<mapsto> ''AB12CD'', ''B'' \<mapsto> ''AB12CD''],
                store = None, pendingAcks = Map.empty\<rparr>"
  have u: "uniqueRooms ?reg" by (simp add: uniqueRooms_def)
  have c: "consistent ?reg"
    by (auto simp: consistent_def getClientsInRoom_def split: if_splits)
  from snapshot_round_trip [of "[]" initialRegistry ?reg] u c
  have "clientRooms (loadPersistentRooms (save (rooms ?reg) initialRegistry)) = clientRooms ?reg"
    by blast
  then show ?thesis using u c by simp
qed

lemma coherent_registerCallback: "coherent (registerCallback reg c kind cb) = coherent reg"
  by (simp add: coherent_def registerCallback_def uniqueRooms_def consistent_def synced_def
      load_def getClientsInRoom_def)

lemma synced_leaveRoom: "synced reg \<Longrightarrow> synced (fst (leaveRoom reg c))"
  by (simp add: leaveRoom_def split: option.splits)

lemma coherent_leaveRoom: "coherent reg \<Longrightarrow> coherent (fst (leaveRoom reg c))"
  by (simp add: coherent_def uniqueRooms_leaveRoom consistent_leaveRoom synced_leaveRoom)

lemma synced_joinRoom: "synced reg \<Longrightarrow> synced (fst (snd (joinRoom pol now reg c r)))"
  by (simp add: joinRoom_def Let_def split: option.splits)

lemma coherent_joinRoom: "coherent reg \<Longrightarrow> coherent (fst (snd (joinRoom pol now reg c r)))"
  by (simp add: coherent_def uniqueRooms_joinRoom consistent_joinRoom synced_joinRoom)

lemma clientRooms_leaveRoom: "clientRooms (fst (leaveRoom reg c)) = (clientRooms reg)(c := None)"
  by (auto simp: leaveRoom_def split: option.splits)

lemma pendingAcks_leaveRoom: "pendingAcks (fst (leaveRoom reg c)) = pendingAcks reg"
  by (auto simp: leaveRoom_def removeClient_def Let_def split: option.splits)

lemma missing_room_leaveRoom:
  "map_of (rooms reg) r = None \<Longrightarrow> map_of (rooms (fst (leaveRoom reg c))) r = None"
  by (auto simp: leaveRoom_def map_of_rooms_removeClient split: option.splits)

lemma joinRoom_missing: "map_of (rooms reg) r = None \<Longrightarrow> joinRoom pol now reg c r = (False, reg, [])"
  by (simp add: joinRoom_def)

text \<open>The registry after a join-room request for a room that does not exist.\<close>

lemma emit_join_room_missing:
  assumes "coherent (server w)" "map_of (rooms (server w)) r = None"
  shows "\<exists>w'. emit e w c ''join-room'' [JStr r, JFun cb] = Some w' \<and>
           timers w' = timers w @ [\<lparr>handle = nextHandle w, due = clock w + 300,
                                     action = ExecuteAck c ''join-room'' (JBool False)\<rparr>] \<and>
           rooms (server w') = rooms (fst (leaveRoom (server w) c)) \<and>
           clientRooms (server w') = (clientRooms (server w))(c := None)"
proof -
  let ?reg0 = "registerCallback (server w) c ''join-room'' cb"
  let ?reg1 = "fst (leaveRoom ?reg0 c)"
  have c0: "coherent ?reg0" using assms(1) by (simp add: coherent_registerCallback)
  have c1: "coherent ?reg1" using c0 by (rule coherent_leaveRoom)
  have l1: "loadPersistentRooms ?reg1 = ?reg1" using c1 by (rule loadPersistentRooms_coherent)
  have m0: "map_of (rooms ?reg0) r = None" using assms(2) by (simp add: registerCallback_def)
  have m1: "map_of (rooms ?reg1) r = None" using m0 by (rule missing_room_leaveRoom)
  have j: "joinRoom (regPolicy e) (clock w) ?reg1 c r = (False, ?reg1, [])"
    using m1 by (rule joinRoom_missing)
  have r1: "rooms ?reg1 = rooms (fst (leaveRoom (server w) c))"
    by (simp add: leaveRoom_def registerCallback_def removeClient_def Let_def split: option.splits)
  have i1: "clientRooms ?reg1 = (clientRooms (server w))(c := None)"
    by (simp add: clientRooms_leaveRoom registerCallback_def)
  show ?thesis
    by (simp add: emit_join_room Let_def serverLeaveRoom_frame serverJoinRoom_frame l1 j
        recordEmit_frame setTimeout_def r1 i1)
qed

lemma scenario_room_created:
  "\<exists>w1. emit scenarioEnv (initSocket ''u1'' initialWorld) ''u1'' ''create-room'' [JFun (AppCallback 0)] = Some w1 \<and>
        rooms (server w1) = [(''AB12CD'', \<lparr>members = [''u1''], createdAt = 0\<rparr>)] \<and>
        clientRooms (server w1) = [''u1'' \<mapsto> ''AB12CD''] \<and>
        store (server w1) = Some [(''AB12CD'', \<lparr>members = [''u1''], createdAt = 0\<rparr>)] \<and>
        callbacksOf w1 ''u1'' ''disconnect'' = [FacadeDisconnect] \<and>
        received w1 = []"
  by (simp add: emit_create_room scenarioEnv_def initSocket_def setSocket_def socketOn_def
      createMockSocket_def serverOn_def setTimeout_def initialWorld_def initialRegistry_def
      createRoom_def removeClient_def Let_def registerCallback_def persist_def save_def
      recordEmit_def on_def callbacksOf_def)

lemma coherent_concrete:
  "rooms reg = [(''AB12CD'', \<lparr>members = [''u1''], createdAt = 0\<rparr>)] \<Longrightarrow>
   clientRooms reg = [''u1'' \<mapsto> ''AB12CD''] \<Longrightarrow>
   store reg = Some [(''AB12CD'', \<lparr>members = [''u1''], createdAt = 0\<rparr>)] \<Longrightarrow> coherent reg"
  by (auto simp: coherent_def uniqueRooms_def synced_def load_def consistent_def
      getClientsInRoom_def split: if_splits)

text \<open>
  Claim C2, as amended. For a registry in good order and a room identifier \<open>r\<close> that does
  not exist in it, a join-room request of client \<open>c\<close> for \<open>r\<close> returns normally and
  schedules the acknowledgement \<open>false\<close>. The request takes \<open>c\<close> out of the room it
  occupied before the join is attempted: afterwards \<open>c\<close> has no entry in the Membership
  Index and every other client's entry is as before; the index as a whole is unchanged
  when \<open>c\<close> was in no room.
\<close>

theorem join_request_missing_room:
  assumes "coherent (server w)" and "map_of (rooms (server w)) r = None"
  shows "\<exists>w'. emit e w c ''join-room'' [JStr r, JFun cb] = Some w' \<and>
           timers w' = timers w @ [\<lparr>handle = nextHandle w, due = clock w + 300,
                                     action = ExecuteAck c ''join-room'' (JBool False)\<rparr>] \<and>
           clientRooms (server w') = (clientRooms (server w))(c := None) \<and>
           (getRoomForClient (server w) c = None \<longrightarrow>
              clientRooms (server w') = clientRooms (server w))"
proof -
  from emit_join_room_missing[OF assms, of e c cb]
  obtain w' where em: "emit e w c ''join-room'' [JStr r, JFun cb] = Some w'"
    and tm: "timers w' = timers w @ [\<lparr>handle = nextHandle w, due = clock w + 300,
                                     action = ExecuteAck c ''join-room'' (JBool False)\<rparr>]"
    and ix: "clientRooms (server w') = (clientRooms (server w))(c := None)"
    by blast
  have same: "getRoomForClient (server w) c = None \<longrightarrow> clientRooms (server w') = clientRooms (server w)"
  proof
    assume "getRoomForClient (server w) c = None"
    then have "clientRooms (server w) c = None" by (simp add: getRoomForClient_def)
    then have "(clientRooms (server w))(c := None) = clientRooms (server w)" by (rule fun_upd_idem)
    then show "clientRooms (server w') = clientRooms (server w)" by (simp only: ix)
  qed
  show ?thesis
  proof (intro exI conjI)
    show "emit e w c ''join-room'' [JStr r, JFun cb] = Some w'" by (rule em)
    show "timers w' = timers w @ [\<lparr>handle = nextHandle w, due = clock w + 300,
                                     action = ExecuteAck c ''join-room'' (JBool False)\<rparr>]" by (rule tm)
    show "clientRooms (server w') = (clientRooms (server w))(c := None)" by (rule ix)
    show "getRoomForClient (server w) c = None \<longrightarrow> clientRooms (server w') = clientRooms (server w)"
      by (rule same)
  qed
qed

theorem join_request_missing_room_witness:
  "\<exists>w1. emit scenarioEnv (initSocket ''u1'' initialWorld) ''u1'' ''create-room'' [JFun (AppCallback 0)] = Some w1 \<and>
     coherent (server w1) \<and> map_of (rooms (server w1)) ''ZZZZZZ'' = None \<and>
     (\<exists>w2. emit scenarioEnv w1 ''u2'' ''join-room'' [JStr ''ZZZZZZ'', JFun (AppCallback 2)] = Some w2 \<and>
           clientRooms (server w2) = clientRooms (server w1))"
proof -
  from scenario_room_created obtain w1 where
    e1: "emit scenarioEnv (initSocket ''u1'' initialWorld) ''u1'' ''create-room'' [JFun (AppCallback 0)] = Some w1"
    and r1: "rooms (server w1) = [(''AB12CD'', \<lparr>members = [''u1''], createdAt = 0\<rparr>)]"
    and i1: "clientRooms (server w1) = [''u1'' \<mapsto> ''AB12CD'']"
    and s1: "store (server w1) = Some [(''AB12CD'', \<lparr>members = [''u1''], createdAt = 0\<rparr>)]"
    by blast
  have c1: "coherent (server w1)" using r1 i1 s1 by (rule coherent_concrete)
  have m1: "map_of (rooms (server w1)) ''ZZZZZZ'' = None" by (simp add: r1)
  have g1: "getRoomForClient (server w1) ''u2'' = None" by (simp add: getRoomForClient_def i1)
  from join_request_missing_room [OF c1 m1, of scenarioEnv "''u2''" "AppCallback 2"] g1
  obtain w2 where "emit scenarioEnv w1 ''u2'' ''join-room'' [JStr ''ZZZZZZ'', JFun (AppCallback 2)] = Some w2"
    and "clientRooms (server w2) = clientRooms (server w1)"
    by blast
  with e1 c1 m1 show ?thesis by blast
qed

text \<open>
  Claim C2 as stated fails: the join-room branch of \<^verbatim>\<open>emit\<close> calls
  \<^verbatim>\<open>mockSocketServer.leaveRoom(id)\<close> before it attempts the join. A client that hosts room
  AB12CD and asks for the missing room ZZZZZZ is told \<open>false\<close> and is in no room
  afterwards: the Membership Index has changed.
\<close>

theorem join_request_missing_room_counterexample:
  "\<exists>w1 w2. emit scenarioEnv (initSocket ''u1'' initialWorld) ''u1'' ''create-room'' [JFun (AppCallback 0)] = Some w1 \<and>
     map_of (rooms (server w1)) ''ZZZZZZ'' = None \<and>
     emit scenarioEnv w1 ''u1'' ''join-room'' [JStr ''ZZZZZZ'', JFun (AppCallback 2)] = Some w2 \<and>
     getRoomForClient (server w1) ''u1'' = Some ''AB12CD'' \<and>
     getRoomForClient (server w2) ''u1'' = None \<and>
     clientRooms (server w2) \<noteq> clientRooms (server w1)"
proof -
  from scenario_room_created obtain w1 where
    e1: "emit scenarioEnv (initSocket ''u1'' initialWorld) ''u1'' ''create-room'' [JFun (AppCallback 0)] = Some w1"
    and r1: "rooms (server w1) = [(''AB12CD'', \<lparr>members = [''u1''], createdAt = 0\<rparr>)]"
    and i1: "clientRooms (server w1) = [''u1'' \<mapsto> ''AB12CD'']"
    and s1: "store (server w1) = Some [(''AB12CD'', \<lparr>members = [''u1''], createdAt = 0\<rparr>)]"
    by blast
  have c1: "coherent (server w1)" using r1 i1 s1 by (rule coherent_concrete)
  have m1: "map_of (rooms (server w1)) ''ZZZZZZ'' = None" by (simp add: r1)
  from emit_join_room_missing[OF c1 m1, of scenarioEnv "''u1''" "AppCallback 2"]
  obtain w2 where e2: "emit scenarioEnv w1 ''u1'' ''join-room'' [JStr ''ZZZZZZ'', JFun (AppCallback 2)] = Some w2"
    and i2: "clientRooms (server w2) = (clientRooms (server w1))(''u1'' := None)"
    by blast
  have g1: "getRoomForClient (server w1) ''u1'' = Some ''AB12CD''" by (simp add: getRoomForClient_def i1)
  have g2: "getRoomForClient (server w2) ''u1'' = None" by (simp add: getRoomForClient_def i2)
  have "clientRooms (server w2) \<noteq> clientRooms (server w1)"
    using g1 g2 by (auto simp: getRoomForClient_def)
  with e1 m1 e2 g1 g2 show ?thesis by blast
qed

text \<open>
  Claim C3, at the input where the code departs from it. The client \<open>u1\<close> is the only member
  of room AB12CD and issues a join-room request for AB12CD again. The request first makes
  \<open>u1\<close> leave, which empties and removes the room; the join then finds no room: the
  acknowledgement is \<open>false\<close>, the room is gone and \<open>u1\<close> is in no room.
\<close>

theorem rejoin_by_sole_member_fails:
  "\<exists>w1 w2. emit scenarioEnv (initSocket ''u1'' initialWorld) ''u1'' ''create-room'' [JFun (AppCallback 0)] = Some w1 \<and>
     getClientsInRoom (server w1) ''AB12CD'' = [''u1''] \<and>
     getRoomForClient (server w1) ''u1'' = Some ''AB12CD'' \<and>
     emit scenarioEnv w1 ''u1'' ''join-room'' [JStr ''AB12CD'', JFun (AppCallback 2)] = Some w2 \<and>
     action (last (timers w2)) = ExecuteAck ''u1'' ''join-room'' (JBool False) \<and>
     map_of (rooms (server w2)) ''AB12CD'' = None \<and>
     getClientsInRoom (server w2) ''AB12CD'' = [] \<and>
     getRoomForClient (server w2) ''u1'' = None"
proof -
  from scenario_room_created obtain w1 where
    e1: "emit scenarioEnv (initSocket ''u1'' initialWorld) ''u1'' ''create-room'' [JFun (AppCallback 0)] = Some w1"
    and r1: "rooms (server w1) = [(''AB12CD'', \<lparr>members = [''u1''], createdAt = 0\<rparr>)]"
    and i1: "clientRooms (server w1) = [''u1'' \<mapsto> ''AB12CD'']"
    and s1: "store (server w1) = Some [(''AB12CD'', \<lparr>members = [''u1''], createdAt = 0\<rparr>)]"
    by blast
  let ?reg0 = "registerCallback (server w1) ''u1'' ''join-room'' (AppCallback 2)"
  have l: "leaveRoom ?reg0 ''u1'' =
      (persist (removeClient ?reg0 ''u1''), [PlayerLeft ''AB12CD'' ''u1''])"
    by (simp add: leaveRoom_def registerCallback_def i1)
  have rr: "rooms (removeClient ?reg0 ''u1'') = []"
    by (simp add: removeClient_def registerCallback_def i1 r1 Let_def)
  let ?reg2 = "loadPersistentRooms (persist (removeClient ?reg0 ''u1''))"
  have r2: "rooms ?reg2 = []" by (simp add: loadPersistentRooms_def rr)
  have i2: "clientRooms ?reg2 = Map.empty"
    by (simp add: loadPersistentRooms_def rr) (simp add: deriveIndex_def fun_eq_iff)
  have j: "joinRoom (regPolicy scenarioEnv) (clock w1) ?reg2 ''u1'' ''AB12CD'' = (False, ?reg2, [])"
    by (rule joinRoom_missing) (simp add: r2)
  let ?w2 = "recordEmit ''u1'' ''join-room'' [JStr ''AB12CD'', JFun (AppCallback 2)]
       (setTimeout (ExecuteAck ''u1'' ''join-room'' (JBool False)) 300
          (serverLeaveRoom (w1\<lparr>server := ?reg0\<rparr>) ''u1''\<lparr>server := ?reg2\<rparr>))"
  have e2: "emit scenarioEnv w1 ''u1'' ''join-room'' [JStr ''AB12CD'', JFun (AppCallback 2)] = Some ?w2"
    by (simp add: emit_join_room Let_def serverLeaveRoom_frame l j serverJoinRoom_def)
  have sv: "server ?w2 = ?reg2" by (simp add: recordEmit_frame setTimeout_def)
  have tm: "action (last (timers ?w2)) = ExecuteAck ''u1'' ''join-room'' (JBool False)"
    by (simp add: recordEmit_frame setTimeout_def)
  show ?thesis
    using e1 e2 tm
    by (simp add: sv r2 i2 getClientsInRoom_def getRoomForClient_def r1 i1)
qed

lemma disconnect_frame:
  "server (snd (disconnect w c)) = server w"
  "received (snd (disconnect w c)) = received w"
  by (simp_all add: disconnect_def invokes_frame)

lemma scenario_hosted:
  "\<exists>p0 w1 w. facadeCreateRoom scenarioEnv (ui (initSocket ''u1'' initialWorld)) (initSocket ''u1'' initialWorld) = Some (p0, w1) \<and>
     w = fire w1 (ExecuteAck ''u1'' ''create-room'' (JStr ''AB12CD'')) \<and>
     socket (ui w) = Some ''u1'' \<and>
     sockets w ''u1'' \<noteq> None \<and>
     roomId (ui w) = JStr ''AB12CD'' \<and>
     rooms (server w) = [(''AB12CD'', \<lparr>members = [''u1''], createdAt = 0\<rparr>)] \<and>
     clientRooms (server w) = [''u1'' \<mapsto> ''AB12CD''] \<and>
     callbacksOf w ''u1'' ''disconnect'' = [FacadeDisconnect] \<and>
     received w = [] \<and>
     promises w p0 = Some (Settled (Resolved (JStr ''AB12CD'')))"
  by (simp add: facadeCreateRoom_def emit_create_room scenarioEnv_def initSocket_def setSocket_def
      socketOn_def createMockSocket_def serverOn_def setTimeout_def initialWorld_def
      initialRegistry_def createRoom_def removeClient_def registerCallback_def persist_def
      save_def recordEmit_def on_def setIsConnecting_def newPromise_def Let_def fire_def executeCallback_def
      runCallback_def clearTimeout_def setRoomId_def toast_def settle_def callbacksOf_def)

text \<open>
  Claim C4, at the input where the code departs from it. The client \<open>u1\<close> has created room
  AB12CD through the facade and the acknowledgement has arrived; then its channel is
  disconnected. \<^verbatim>\<open>disconnect\<close> calls the channel's disconnect handlers and nothing else:
  the facade forgets its room, the registry is unchanged, \<open>u1\<close> is still listed in AB12CD
  and pointed to it by the Membership Index, and no channel receives \<^verbatim>\<open>player-left\<close>. An
  explicit \<open>leaveRoom\<close> removes \<open>u1\<close> and signals \<^verbatim>\<open>player-left\<close> once.
\<close>

theorem disconnect_leaves_member_in_room:
  "\<exists>p0 w1 w. facadeCreateRoom scenarioEnv (ui (initSocket ''u1'' initialWorld)) (initSocket ''u1'' initialWorld) = Some (p0, w1) \<and>
     w = fire w1 (ExecuteAck ''u1'' ''create-room'' (JStr ''AB12CD'')) \<and>
     roomId (ui w) = JStr ''AB12CD'' \<and>
     getRoomForClient (server w) ''u1'' = Some ''AB12CD'' \<and>
     server (snd (disconnect w ''u1'')) = server w \<and>
     getRoomForClient (server (snd (disconnect w ''u1''))) ''u1'' = Some ''AB12CD'' \<and>
     getClientsInRoom (server (snd (disconnect w ''u1''))) ''AB12CD'' = [''u1''] \<and>
     received (snd (disconnect w ''u1'')) = received w \<and>
     roomId (ui (snd (disconnect w ''u1''))) = JNull \<and>
     snd (leaveRoom (server w) ''u1'') = [PlayerLeft ''AB12CD'' ''u1''] \<and>
     getRoomForClient (server (serverLeaveRoom w ''u1'')) ''u1'' = None \<and>
     getClientsInRoom (server (serverLeaveRoom w ''u1'')) ''AB12CD'' = []"
proof -
  from scenario_hosted obtain p0 w1 w where
    c: "facadeCreateRoom scenarioEnv (ui (initSocket ''u1'' initialWorld)) (initSocket ''u1'' initialWorld) = Some (p0, w1)"
    and w: "w = fire w1 (ExecuteAck ''u1'' ''create-room'' (JStr ''AB12CD''))"
    and rid: "roomId (ui w) = JStr ''AB12CD''"
    and r1: "rooms (server w) = [(''AB12CD'', \<lparr>members = [''u1''], createdAt = 0\<rparr>)]"
    and i1: "clientRooms (server w) = [''u1'' \<mapsto> ''AB12CD'']"
    and d1: "callbacksOf w ''u1'' ''disconnect'' = [FacadeDisconnect]"
    by blast
  have g0: "getRoomForClient (server w) ''u1'' = Some ''AB12CD''"
    by (simp add: getRoomForClient_def i1)
  have s: "server (snd (disconnect w ''u1'')) = server w" by (rule disconnect_frame)
  have g1: "getRoomForClient (server (snd (disconnect w ''u1''))) ''u1'' = Some ''AB12CD''"
    by (simp add: s g0)
  have m1: "getClientsInRoom (server (snd (disconnect w ''u1''))) ''AB12CD'' = [''u1'']"
    by (simp add: s getClientsInRoom_def r1)
  have rc: "received (snd (disconnect w ''u1'')) = received w" by (rule disconnect_frame)
  have rn: "roomId (ui (snd (disconnect w ''u1''))) = JNull"
    by (simp add: disconnect_def forEachCallback_def visit_def d1 invoke_def toast_def
        setRoomId_def setIsConnected_def)
  have sg: "snd (leaveRoom (server w) ''u1'') = [PlayerLeft ''AB12CD'' ''u1'']"
    by (simp add: leaveRoom_def i1)
  have g2: "getRoomForClient (server (serverLeaveRoom w ''u1'')) ''u1'' = None"
    by (simp add: serverLeaveRoom_frame clientRooms_leaveRoom getRoomForClient_def)
  have m2: "getClientsInRoom (server (serverLeaveRoom w ''u1'')) ''AB12CD'' = []"
    by (simp add: serverLeaveRoom_frame getClientsInRoom_def leaveRoom_def i1 r1
        removeClient_def Let_def)
  show ?thesis
  proof (intro exI conjI)
    show "facadeCreateRoom scenarioEnv (ui (initSocket ''u1'' initialWorld)) (initSocket ''u1'' initialWorld) = Some (p0, w1)" by (rule c)
    show "w = fire w1 (ExecuteAck ''u1'' ''create-room'' (JStr ''AB12CD''))" by (rule w)
  qed (rule rid g0 s g1 m1 rc rn sg g2 m2)+
qed

section \<open>Properties of the Session Facade\<close>

lemma setters_frame:
  "server (toast title w) = server w" "sockets (toast title w) = sockets w"
  "timers (toast title w) = timers w" "nextHandle (toast title w) = nextHandle w"
  "clock (toast title w) = clock w" "promises (toast title w) = promises w"
  "nextPromise (toast title w) = nextPromise w" "socket (ui (toast title w)) = socket (ui w)"
  "roomId (ui (toast title w)) = roomId (ui w)"
  "server (setIsConnecting b w) = server w" "sockets (setIsConnecting b w) = sockets w"
  "timers (setIsConnecting b w) = timers w" "nextHandle (setIsConnecting b w) = nextHandle w"
  "clock (setIsConnecting b w) = clock w" "promises (setIsConnecting b w) = promises w"
  "nextPromise (setIsConnecting b w) = nextPromise w" "socket (ui (setIsConnecting b w)) = socket (ui w)"
  "roomId (ui (setIsConnecting b w)) = roomId (ui w)"
  "server (setRoomId v w) = server w" "sockets (setRoomId v w) = sockets w"
  "timers (setRoomId v w) = timers w" "nextHandle (setRoomId v w) = nextHandle w"
  "clock (setRoomId v w) = clock w" "promises (setRoomId v w) = promises w"
  "nextPromise (setRoomId v w) = nextPromise w" "socket (ui (setRoomId v w)) = socket (ui w)"
  "roomId (ui (setRoomId v w)) = v"
  by (simp_all add: toast_def setIsConnecting_def setRoomId_def)

lemma facadeLeaveRoom_first:
  assumes "socket r = Some c"
  shows "(if jsTruthy (roomId r) then facadeLeaveRoom e r (setIsConnecting True w)
          else Some (setIsConnecting True w)) = Some (clearedRoom r w c)"
  using assms
  by (simp add: facadeLeaveRoom_def clearedRoom_def emit_leave_room setters_frame)

lemma clearedRoom_frame:
  "timers (clearedRoom r w c) = timers w"
  "nextHandle (clearedRoom r w c) = nextHandle w"
  "clock (clearedRoom r w c) = clock w"
  "promises (clearedRoom r w c) = promises w"
  "nextPromise (clearedRoom r w c) = nextPromise w"
  "socket (ui (clearedRoom r w c)) = socket (ui w)"
  "server (clearedRoom r w c) = (if jsTruthy (roomId r) then fst (leaveRoom (server w) c) else server w)"
  by (simp_all add: clearedRoom_def setters_frame recordEmit_frame serverLeaveRoom_frame)

lemma emitted_clearedRoom:
  "emitted (clearedRoom r w c) c' ev =
     (if jsTruthy (roomId r) \<and> c' = c \<and> ev = ''leave-room'' \<and> sockets w c \<noteq> None
      then emitted w c ''leave-room'' @ [[roomId r]] else emitted w c' ev)"
proof -
  have a: "emitted (toast t (setRoomId v x)) c'' ev' = emitted x c'' ev'" for t v x c'' ev'
    by (rule emitted_sockets_cong) (simp add: setters_frame)
  have c: "emitted (setIsConnecting True w) c'' ev' = emitted w c'' ev'" for c'' ev'
    by (rule emitted_sockets_cong) (simp add: setters_frame)
  have b: "emitted (serverLeaveRoom (setIsConnecting True w) c) c'' ev' = emitted w c'' ev'" for c'' ev'
    by (simp add: serverLeaveRoom_frame c)
  show ?thesis
    by (simp add: clearedRoom_def a b c emitted_recordEmit serverLeaveRoom_frame setters_frame)
qed

lemma roomId_clearedRoom: "jsTruthy (roomId r) \<Longrightarrow> roomId (ui (clearedRoom r w c)) = JNull"
  by (simp add: clearedRoom_def setters_frame)

lemma facadeJoinRoom_malformed:
  assumes "socket r = Some c" "length s \<noteq> 6"
  shows "facadeJoinRoom e r w s =
           Some (nextPromise w,
                 newPromise (Settled (Resolved (JBool False)))
                   (toast ''Invalid room code'' (setIsConnecting False (clearedRoom r w c))))"
  using assms
  by (simp add: facadeJoinRoom_def facadeLeaveRoom_first clearedRoom_frame)

lemma newPromise_frame:
  "server (newPromise st w) = server w" "sockets (newPromise st w) = sockets w"
  "timers (newPromise st w) = timers w" "nextHandle (newPromise st w) = nextHandle w"
  "clock (newPromise st w) = clock w" "ui (newPromise st w) = ui w"
  "promises (newPromise st w) = (promises w)(nextPromise w \<mapsto> st)"
  "nextPromise (newPromise st w) = Suc (nextPromise w)"
  by (simp_all add: newPromise_def)

text \<open>
  Claim C5, as amended. \<^verbatim>\<open>joinRoom(s)\<close> of a render that holds a socket, with a code whose
  length is not 6 (the empty code included), returns a promise that is already resolved
  with \<open>false\<close>; no \<^verbatim>\<open>join-room\<close> event has been emitted on any channel, no acknowledgement
  is pending and no timer was started. \<^verbatim>\<open>joinRoom(s)\<close> of a render that holds no socket
  returns a promise rejected with ``Socket not connected'', whatever \<open>s\<close> is.
\<close>

theorem malformed_code_rejected_before_request:
  assumes "socket r = Some c" and "length s \<noteq> 6"
  shows "(\<exists>w'. facadeJoinRoom e r w s = Some (nextPromise w, w') \<and>
            promises w' (nextPromise w) = Some (Settled (Resolved (JBool False))) \<and>
            (\<forall>c'. emitted w' c' ''join-room'' = emitted w c' ''join-room'') \<and>
            timers w' = timers w \<and>
            pendingAcks (server w') = pendingAcks (server w)) \<and>
         (\<forall>r0 s0. socket r0 = None \<longrightarrow>
            (\<exists>w'. facadeJoinRoom e r0 w s0 = Some (nextPromise w, w') \<and>
               promises w' (nextPromise w) = Some (Settled (Rejected ''Socket not connected''))))"
proof -
  have none: "\<exists>w'. facadeJoinRoom e r0 w s0 = Some (nextPromise w, w') \<and>
               promises w' (nextPromise w) = Some (Settled (Rejected ''Socket not connected''))"
    if "socket r0 = None" for r0 s0
    using that by (simp add: facadeJoinRoom_def newPromise_frame)
  let ?w' = "newPromise (Settled (Resolved (JBool False)))
               (toast ''Invalid room code'' (setIsConnecting False (clearedRoom r w c)))"
  have e: "emitted ?w' c' ''join-room'' = emitted w c' ''join-room''" for c'
  proof -
    have "emitted ?w' c' ''join-room'' = emitted (clearedRoom r w c) c' ''join-room''"
      by (rule emitted_sockets_cong) (simp add: newPromise_frame setters_frame)
    then show ?thesis by (simp add: emitted_clearedRoom)
  qed
  have some: "\<exists>w'. facadeJoinRoom e r w s = Some (nextPromise w, w') \<and>
            promises w' (nextPromise w) = Some (Settled (Resolved (JBool False))) \<and>
            (\<forall>c'. emitted w' c' ''join-room'' = emitted w c' ''join-room'') \<and>
            timers w' = timers w \<and>
            pendingAcks (server w') = pendingAcks (server w)"
    unfolding facadeJoinRoom_malformed[OF assms]
    by (simp add: e newPromise_frame setters_frame clearedRoom_frame pendingAcks_leaveRoom)
  from some none show ?thesis by blast
qed

theorem malformed_code_rejected_before_request_witness:
  "socket (ui (initSocket ''u1'' initialWorld)) = Some ''u1'' \<and> length ''ABC'' \<noteq> 6 \<and>
   (\<exists>w'. facadeJoinRoom scenarioEnv (ui (initSocket ''u1'' initialWorld)) (initSocket ''u1'' initialWorld) ''ABC'' =
            Some (nextPromise (initSocket ''u1'' initialWorld), w') \<and>
          promises w' (nextPromise (initSocket ''u1'' initialWorld)) =
            Some (Settled (Resolved (JBool False))) \<and>
          timers w' = timers (initSocket ''u1'' initialWorld))"
proof -
  have s: "socket (ui (initSocket ''u1'' initialWorld)) = Some ''u1''"
    by (simp add: initSocket_def setSocket_def)
  have l: "length ''ABC'' \<noteq> 6" by simp
  from malformed_code_rejected_before_request [OF s l, of scenarioEnv] s l
  show ?thesis by blast
qed

text \<open>
  Claim C5 as stated fails for a render that holds no socket, the first render: the guard
  \<^verbatim>\<open>if (!socket) throw new Error('Socket not connected')\<close> comes before the validation, so
  the promise returned for the empty code is rejected, not resolved with \<open>false\<close>.
\<close>

theorem malformed_code_counterexample:
  "length ('''' :: string) \<noteq> 6 \<and>
   (\<exists>w'. facadeJoinRoom scenarioEnv (ui initialWorld) initialWorld '''' = Some (0, w') \<and>
         promises w' 0 = Some (Settled (Rejected ''Socket not connected'')) \<and>
         promises w' 0 \<noteq> Some (Settled (Resolved (JBool False))))"
  by (simp add: facadeJoinRoom_def initialWorld_def newPromise_def)

lemma roomId_null_receive:
  "roomId (ui w) = JNull \<Longrightarrow> roomId (ui (snd (receive w c ev args))) = JNull"
  by (simp add: receive_def roomId_null_forEachCallback)

lemma roomId_null_runServerHandler:
  "roomId (ui w) = JNull \<Longrightarrow> roomId (ui (snd (runServerHandler w h data))) = JNull"
  by (simp add: runServerHandler_def roomId_null_receive split: serverHandler.splits option.splits)

lemma roomId_null_emitServer_fold:
  "roomId (ui w) = JNull \<Longrightarrow>
   roomId (ui (foldl (\<lambda>w' l. if fst l = name then snd (runServerHandler w' (snd l) data) else w') w ls)) = JNull"
  by (induction ls arbitrary: w) (simp_all add: roomId_null_runServerHandler)

lemma roomId_null_dispatchSignal:
  "roomId (ui w) = JNull \<Longrightarrow> roomId (ui (dispatchSignal w sg)) = JNull"
  by (simp add: dispatchSignal_def emitServer_def roomId_null_emitServer_fold split: signal.splits)

lemma roomId_null_dispatchSignals:
  "roomId (ui w) = JNull \<Longrightarrow> roomId (ui (foldl dispatchSignal w sigs)) = JNull"
  by (induction sigs arbitrary: w) (simp_all add: roomId_null_dispatchSignal)

lemma roomId_null_serverLeaveRoom:
  "roomId (ui w) = JNull \<Longrightarrow> roomId (ui (serverLeaveRoom w c)) = JNull"
  by (simp add: serverLeaveRoom_def roomId_null_dispatchSignals split: prod.splits)

lemma roomId_null_serverJoinRoom:
  "roomId (ui w) = JNull \<Longrightarrow> roomId (ui (snd (serverJoinRoom e w c v))) = JNull"
  by (simp add: serverJoinRoom_def roomId_null_dispatchSignals split: prod.splits jsval.splits)

lemma setTimeout_frame:
  "server (setTimeout a d w) = server w" "sockets (setTimeout a d w) = sockets w"
  "clock (setTimeout a d w) = clock w" "promises (setTimeout a d w) = promises w"
  "nextPromise (setTimeout a d w) = nextPromise w" "ui (setTimeout a d w) = ui w"
  "timers (setTimeout a d w) = timers w @ [\<lparr>handle = nextHandle w, due = clock w + d, action = a\<rparr>]"
  "nextHandle (setTimeout a d w) = Suc (nextHandle w)"
  by (simp_all add: setTimeout_def)

lemma joinRoom_index_unhoused:
  assumes "consistent reg" "clientRooms reg c = None"
  shows "clientRooms (fst (snd (joinRoom pol now reg c r))) c =
           (if fst (joinRoom pol now reg c r) then Some r else None)"
proof (cases "map_of (rooms reg) r")
  case None
  then show ?thesis using assms by (simp add: joinRoom_def)
next
  case (Some rm)
  have "c \<notin> set (members rm)"
  proof
    assume "c \<in> set (members rm)"
    with assms(1) Some have "clientRooms reg c = Some r" unfolding consistent_iff by blast
    with assms(2) show False by simp
  qed
  then show ?thesis using assms Some by (simp add: joinRoom_def Let_def)
qed

text \<open>The registry part of a join-room request, for a client that is in no room.\<close>

lemma emit_join_room_unhoused:
  assumes "coherent (server w)" "clientRooms (server w) c = None"
  shows "\<exists>w' b. emit e w c ''join-room'' [JStr r, JFun cb] = Some w' \<and>
           timers w' = timers w @ [\<lparr>handle = nextHandle w, due = clock w + 300,
                                     action = ExecuteAck c ''join-room'' (JBool b)\<rparr>] \<and>
           clientRooms (server w') c = (if b then Some r else None) \<and>
           promises w' = promises w \<and>
           (\<forall>c' ev. ev \<noteq> ''join-room'' \<longrightarrow> emitted w' c' ev = emitted w c' ev) \<and>
           (roomId (ui w) = JNull \<longrightarrow> roomId (ui w') = JNull)"
proof -
  let ?reg0 = "registerCallback (server w) c ''join-room'' cb"
  let ?w1 = "w\<lparr>server := ?reg0\<rparr>"
  let ?w2 = "serverLeaveRoom ?w1 c"
  have c0: "coherent ?reg0" using assms(1) by (simp add: coherent_registerCallback)
  have i0: "clientRooms ?reg0 c = None" using assms(2) by (simp add: registerCallback_def)
  have l0: "fst (leaveRoom ?reg0 c) = ?reg0" using i0 by (simp add: leaveRoom_def)
  have s2: "server ?w2 = ?reg0" by (simp add: serverLeaveRoom_frame l0)
  have ld: "loadPersistentRooms ?reg0 = ?reg0" using c0 by (rule loadPersistentRooms_coherent)
  let ?w3 = "?w2\<lparr>server := ?reg0\<rparr>"
  let ?res = "serverJoinRoom e ?w3 c (JStr r)"
  let ?b = "fst (joinRoom (regPolicy e) (clock w) ?reg0 c r)"
  let ?w' = "recordEmit c ''join-room'' [JStr r, JFun cb]
               (setTimeout (ExecuteAck c ''join-room'' (JBool (fst ?res))) 300 (snd ?res))"
  have em: "emit e w c ''join-room'' [JStr r, JFun cb] = Some ?w'"
    by (simp add: emit_join_room Let_def s2 ld)
  have fb: "fst ?res = ?b" by (simp add: serverJoinRoom_frame serverLeaveRoom_frame)
  have sv: "server ?w' = fst (snd (joinRoom (regPolicy e) (clock w) ?reg0 c r))"
    by (simp add: recordEmit_frame setTimeout_frame serverJoinRoom_frame serverLeaveRoom_frame)
  have cons0: "consistent ?reg0" using c0 by (simp add: coherent_def)
  have ix: "clientRooms (server ?w') c = (if ?b then Some r else None)"
    unfolding sv using joinRoom_index_unhoused[OF cons0 i0] by simp
  have tm: "timers ?w' = timers w @ [\<lparr>handle = nextHandle w, due = clock w + 300,
                                     action = ExecuteAck c ''join-room'' (JBool ?b)\<rparr>]"
    by (simp add: recordEmit_frame setTimeout_frame serverJoinRoom_frame serverLeaveRoom_frame fb)
  have pr: "promises ?w' = promises w"
    by (simp add: recordEmit_frame setTimeout_frame serverJoinRoom_frame serverLeaveRoom_frame)
  have so: "emitted (setTimeout (ExecuteAck c ''join-room'' (JBool (fst ?res))) 300 (snd ?res)) c' ev =
              emitted w c' ev" for c' ev
  proof -
    have "emitted (setTimeout (ExecuteAck c ''join-room'' (JBool (fst ?res))) 300 (snd ?res)) c' ev =
            emitted (snd ?res) c' ev"
      by (rule emitted_sockets_cong) (simp add: setTimeout_frame)
    then show ?thesis by (simp add: serverJoinRoom_frame serverLeaveRoom_frame)
  qed
  have emt: "ev \<noteq> ''join-room'' \<Longrightarrow> emitted ?w' c' ev = emitted w c' ev" for c' ev
    by (simp add: emitted_recordEmit so)
  have rid: "roomId (ui w) = JNull \<Longrightarrow> roomId (ui ?w') = JNull"
  proof -
    assume n: "roomId (ui w) = JNull"
    have "roomId (ui ?w1) = JNull" using n by simp
    then have "roomId (ui ?w2) = JNull" by (rule roomId_null_serverLeaveRoom)
    then have "roomId (ui ?w3) = JNull" by simp
    then have "roomId (ui (snd ?res)) = JNull" by (rule roomId_null_serverJoinRoom)
    then show ?thesis by (simp add: recordEmit_frame setTimeout_frame)
  qed
  show ?thesis using em tm ix pr emt rid by blast
qed

lemma emit_join_room_frame:
  "\<exists>w'. emit e w c ''join-room'' [v, JFun cb] = Some w' \<and>
         promises w' = promises w \<and> nextPromise w' = nextPromise w \<and>
         (\<forall>c' ev. ev \<noteq> ''join-room'' \<longrightarrow> emitted w' c' ev = emitted w c' ev) \<and>
         (roomId (ui w) = JNull \<longrightarrow> roomId (ui w') = JNull) \<and>
         (\<exists>b. timers w' = timers w @ [\<lparr>handle = nextHandle w, due = clock w + 300,
                                        action = ExecuteAck c ''join-room'' (JBool b)\<rparr>])"
proof -
  let ?w1 = "w\<lparr>server := registerCallback (server w) c ''join-room'' cb\<rparr>"
  let ?w2 = "serverLeaveRoom ?w1 c"
  let ?w3 = "?w2\<lparr>server := loadPersistentRooms (server ?w2)\<rparr>"
  let ?res = "serverJoinRoom e ?w3 c v"
  let ?w' = "recordEmit c ''join-room'' [v, JFun cb]
               (setTimeout (ExecuteAck c ''join-room'' (JBool (fst ?res))) 300 (snd ?res))"
  have em: "emit e w c ''join-room'' [v, JFun cb] = Some ?w'"
    by (simp add: emit_join_room Let_def)
  have pr: "promises ?w' = promises w" "nextPromise ?w' = nextPromise w"
    by (simp_all add: recordEmit_frame setTimeout_frame serverJoinRoom_frame serverLeaveRoom_frame)
  have so: "emitted (setTimeout (ExecuteAck c ''join-room'' (JBool (fst ?res))) 300 (snd ?res)) c' ev =
              emitted w c' ev" for c' ev
  proof -
    have "emitted (setTimeout (ExecuteAck c ''join-room'' (JBool (fst ?res))) 300 (snd ?res)) c' ev =
            emitted (snd ?res) c' ev"
      by (rule emitted_sockets_cong) (simp add: setTimeout_frame)
    then show ?thesis by (simp add: serverJoinRoom_frame serverLeaveRoom_frame)
  qed
  have emt: "ev \<noteq> ''join-room'' \<Longrightarrow> emitted ?w' c' ev = emitted w c' ev" for c' ev
    by (simp add: emitted_recordEmit so)
  have rid: "roomId (ui w) = JNull \<Longrightarrow> roomId (ui ?w') = JNull"
  proof -
    assume n: "roomId (ui w) = JNull"
    have "roomId (ui ?w1) = JNull" using n by simp
    then have "roomId (ui ?w2) = JNull" by (rule roomId_null_serverLeaveRoom)
    then have "roomId (ui ?w3) = JNull" by simp
    then have "roomId (ui (snd ?res)) = JNull" by (rule roomId_null_serverJoinRoom)
    then show ?thesis by (simp add: recordEmit_frame setTimeout_frame)
  qed
  have tm: "timers ?w' = timers w @ [\<lparr>handle = nextHandle w, due = clock w + 300,
                                     action = ExecuteAck c ''join-room'' (JBool (fst ?res))\<rparr>]"
    by (simp add: recordEmit_frame setTimeout_frame serverJoinRoom_frame serverLeaveRoom_frame)
  show ?thesis using em pr emt rid tm by blast
qed

lemma roomExists_coherent:
  "coherent reg \<Longrightarrow> roomExists (loadPersistentRooms reg) r = (map_of (rooms reg) r \<noteq> None, reg)"
  by (simp add: roomExists_def loadPersistentRooms_coherent Let_def)

section \<open>Timers and sessions of calls\<close>

subsection \<open>The timer loop\<close>

lemma settle_frame:
  "server (settle p out w) = server w" "sockets (settle p out w) = sockets w"
  "timers (settle p out w) = timers w" "nextHandle (settle p out w) = nextHandle w"
  "clock (settle p out w) = clock w" "nextPromise (settle p out w) = nextPromise w"
  "ui (settle p out w) = ui w"
  by (simp_all add: settle_def split: option.splits promiseState.splits)

lemma clearTimeout_frame:
  "server (clearTimeout h w) = server w" "sockets (clearTimeout h w) = sockets w"
  "nextHandle (clearTimeout h w) = nextHandle w"
  "clock (clearTimeout h w) = clock w" "nextPromise (clearTimeout h w) = nextPromise w"
  "promises (clearTimeout h w) = promises w"
  "ui (clearTimeout h w) = ui w"
  "timers (clearTimeout h w) = filter (\<lambda>tm. handle tm \<noteq> h) (timers w)"
  by (simp_all add: clearTimeout_def)

lemma timers_runCallback:
  "timers (runCallback w cb v) =
     (case cb of CreateAck p t \<Rightarrow> filter (\<lambda>tm. handle tm \<noteq> t) (timers w)
               | JoinAck p t r \<Rightarrow> filter (\<lambda>tm. handle tm \<noteq> t) (timers w)
               | AppCallback n \<Rightarrow> timers w)"
  by (simp add: runCallback_def Let_def settle_frame setters_frame clearTimeout_frame
      split: callback.splits)

lemma timers_runCallback_subset: "set (timers (runCallback w cb v)) \<subseteq> set (timers w)"
  by (cases cb) (auto simp: timers_runCallback)

lemma timers_runCallback_length: "length (timers (runCallback w cb v)) \<le> length (timers w)"
  by (cases cb) (simp_all add: timers_runCallback)

lemma timers_fire:
  "timers (fire w a) =
     (case a of
        ExecuteAck c kind v \<Rightarrow>
          (case pendingAcks (server w) (c, kind) of
             None \<Rightarrow> timers w
           | Some cb \<Rightarrow> timers (runCallback (w\<lparr>server := fst (executeCallback (server w) c kind)\<rparr>) cb v))
      | _ \<Rightarrow> timers w)"
  by (cases a)
     (simp_all add: fire_def executeCallback_def settle_frame setters_frame invokes_frame
      split: option.splits)

lemma timers_fire_subset: "set (timers (fire w a)) \<subseteq> set (timers w)"
proof (cases a)
  case (ExecuteAck c kind v)
  then show ?thesis
    using timers_runCallback_subset[of "w\<lparr>server := fst (executeCallback (server w) c kind)\<rparr>"]
    by (auto simp: timers_fire split: option.splits)
qed (simp_all add: timers_fire)

lemma timers_fire_length: "length (timers (fire w a)) \<le> length (timers w)"
proof (cases a)
  case (ExecuteAck c kind v)
  then show ?thesis
    using timers_runCallback_length[of "w\<lparr>server := fst (executeCallback (server w) c kind)\<rparr>"]
    by (auto simp: timers_fire split: option.splits)
qed (simp_all add: timers_fire)

lemma earliest_in: "earliest tms = Some tm \<Longrightarrow> tm \<in> set tms"
  by (induction tms arbitrary: tm) (auto split: option.splits if_splits)

lemma earliest_None: "earliest tms = None \<longleftrightarrow> tms = []"
  by (cases tms) (auto split: option.splits)

lemma nextTimer_in: "nextTimer t w = Some tm \<Longrightarrow> tm \<in> set (timers w) \<and> due tm \<le> t"
  by (auto simp: nextTimer_def dest: earliest_in)

lemma nextTimer_None: "nextTimer t w = None \<Longrightarrow> \<forall>tm\<in>set (timers w). t < due tm"
  by (auto simp: nextTimer_def earliest_None filter_empty_conv)

text \<open>
  The passage of time up to \<open>t\<close>: the timers due by \<open>t\<close> fire one after the other, the
  earliest first, and the clock ends at \<open>t\<close>. Firing a timer starts no timer, so the loop
  ends.
\<close>

function runUntil :: "nat \<Rightarrow> world \<Rightarrow> world" where
  "runUntil t w =
     (case nextTimer t w of
        None \<Rightarrow> w\<lparr>clock := max (clock w) t\<rparr>
      | Some tm \<Rightarrow> runUntil t (fire (takeTimer tm w) (action tm)))"
  by pat_completeness auto
termination
proof (relation "measure (\<lambda>(t, w). length (timers w))")
  show "wf (measure (\<lambda>(t, w). length (timers w)))" by simp
next
  fix t w tm
  assume "nextTimer t w = Some tm"
  then have "tm \<in> set (timers w)" by (simp add: nextTimer_in)
  then have "length (remove1 tm (timers w)) < length (timers w)"
    by (simp add: length_remove1) (cases "timers w"; auto)
  moreover have "length (timers (fire (takeTimer tm w) (action tm))) \<le> length (timers (takeTimer tm w))"
    by (rule timers_fire_length)
  ultimately show "((t, fire (takeTimer tm w) (action tm)), (t, w)) \<in> measure (\<lambda>(t, w). length (timers w))"
    by (simp add: takeTimer_def)
qed

subsection \<open>Sessions\<close>

text \<open>
  What happens to the one facade of the page: the provider's effect creates a socket, the
  application calls \<^verbatim>\<open>createRoom\<close>, \<^verbatim>\<open>joinRoom\<close> or \<^verbatim>\<open>leaveRoom\<close> of some render (the latest
  or an earlier one, whose functions it still holds) or \<^verbatim>\<open>debugResetRooms\<close>, the cleanup
  of the effect disconnects the socket \<open>c\<close> that the effect created (an exception of a
  disconnect handler goes to the caller of the cleanup), or time passes.
\<close>

fun ackHandle :: "callback \<Rightarrow> nat option" where
  "ackHandle (CreateAck p t) = Some t"
| "ackHandle (JoinAck p t r) = Some t"
| "ackHandle (AppCallback n) = None"

fun ackPromise :: "callback \<Rightarrow> nat option" where
  "ackPromise (CreateAck p t) = Some p"
| "ackPromise (JoinAck p t r) = Some p"
| "ackPromise (AppCallback n) = None"

fun timeoutOf :: "timerAction \<Rightarrow> nat option" where
  "timeoutOf (CreateTimeout p) = Some p"
| "timeoutOf (JoinTimeout p) = Some p"
| "timeoutOf (ExecuteAck c kind v) = None"
| "timeoutOf (ConnectSocket c) = None"

definition paired :: "world \<Rightarrow> bool" where
  "paired w \<longleftrightarrow>
     (\<forall>k cb h. pendingAcks (server w) k = Some cb \<longrightarrow> ackHandle cb = Some h \<longrightarrow>
        (\<forall>tm\<in>set (timers w). handle tm = h \<longrightarrow> timeoutOf (action tm) = ackPromise cb))"

definition handlesFresh :: "world \<Rightarrow> bool" where
  "handlesFresh w \<longleftrightarrow>
     (\<forall>tm\<in>set (timers w). handle tm < nextHandle w) \<and>
     (\<forall>k cb h. pendingAcks (server w) k = Some cb \<longrightarrow> ackHandle cb = Some h \<longrightarrow> h < nextHandle w)"

definition punctual :: "world \<Rightarrow> bool" where
  "punctual w \<longleftrightarrow> (\<forall>tm\<in>set (timers w). clock w < due tm)"

definition orderly :: "world \<Rightarrow> bool" where
  "orderly w \<longleftrightarrow> paired w \<and> handlesFresh w \<and> punctual w"

definition armed :: "nat \<Rightarrow> nat \<Rightarrow> world \<Rightarrow> bool" where
  "armed p T w \<longleftrightarrow>
     p < nextPromise w \<and> promises w p \<noteq> None \<and>
     (promises w p = Some Pending \<longrightarrow>
        (\<exists>tm\<in>set (timers w). due tm \<le> T \<and> timeoutOf (action tm) = Some p))"

text \<open>The promise that firing a timer settles, if any, and the outcome it gives it.\<close>

definition settledBy :: "world \<Rightarrow> timerAction \<Rightarrow> nat option" where
  "settledBy w a =
     (case a of
        ExecuteAck c kind v \<Rightarrow>
          (case pendingAcks (server w) (c, kind) of None \<Rightarrow> None | Some cb \<Rightarrow> ackPromise cb)
      | ConnectSocket c \<Rightarrow> None
      | CreateTimeout p \<Rightarrow> Some p
      | JoinTimeout p \<Rightarrow> Some p)"

definition outcomeOf :: "timerAction \<Rightarrow> outcome" where
  "outcomeOf a =
     (case a of
        ExecuteAck c kind v \<Rightarrow> Resolved v
      | ConnectSocket c \<Rightarrow> Resolved JUndefined
      | CreateTimeout p \<Rightarrow> Rejected ''Room creation timeout''
      | JoinTimeout p \<Rightarrow> Rejected ''Join room timeout'')"

datatype call =
    Init client_id
  | Create facade
  | Join facade string
  | Leave facade
  | Disconnect client_id
  | Reset
  | Wait nat

fun perform :: "env \<Rightarrow> world \<Rightarrow> call \<Rightarrow> world option" where
  "perform e w (Init c) = Some (initSocket c w)"
| "perform e w (Create r) = map_option snd (facadeCreateRoom e r w)"
| "perform e w (Join r s) = map_option snd (facadeJoinRoom e r w s)"
| "perform e w (Leave r) = facadeLeaveRoom e r w"
| "perform e w (Disconnect c) = Some (snd (disconnect w c))"
| "perform e w Reset = Some (debugResetRooms w)"
| "perform e w (Wait t) = Some (runUntil t w)"

fun performAll :: "env \<Rightarrow> world \<Rightarrow> call list \<Rightarrow> world option" where
  "performAll e w [] = Some w"
| "performAll e w (x # xs) =
     (case perform e w x of None \<Rightarrow> None | Some w' \<Rightarrow> performAll e w' xs)"

definition quiet :: "world \<Rightarrow> world \<Rightarrow> bool" where
  "quiet w w' \<longleftrightarrow>
     timers w' = timers w \<and> nextHandle w' = nextHandle w \<and> clock w' = clock w \<and>
     promises w' = promises w \<and> nextPromise w' = nextPromise w \<and>
     pendingAcks (server w') = pendingAcks (server w)"

definition answered :: "world \<Rightarrow> world \<Rightarrow> bool" where
  "answered w w' \<longleftrightarrow>
     timers w' = timers w \<and> nextHandle w' = nextHandle w \<and> clock w' = clock w \<and>
     pendingAcks (server w') = pendingAcks (server w) \<and>
     nextPromise w' = Suc (nextPromise w) \<and>
     (\<exists>out. promises w' = (promises w)(nextPromise w \<mapsto> Settled out))"

definition requested :: "world \<Rightarrow> world \<Rightarrow> bool" where
  "requested w w' \<longleftrightarrow>
     (\<exists>a ack k cb.
        timers w' = timers w @
          [\<lparr>handle = nextHandle w, due = clock w + 5000, action = a\<rparr>,
           \<lparr>handle = Suc (nextHandle w), due = clock w + 300, action = ack\<rparr>] \<and>
        timeoutOf a = Some (nextPromise w) \<and> timeoutOf ack = None \<and>
        nextHandle w' = Suc (Suc (nextHandle w)) \<and> clock w' = clock w \<and>
        nextPromise w' = Suc (nextPromise w) \<and>
        promises w' = (promises w)(nextPromise w \<mapsto> Pending) \<and>
        pendingAcks (server w') = (pendingAcks (server w))(k \<mapsto> cb) \<and>
        ackHandle cb = Some (nextHandle w) \<and> ackPromise cb = Some (nextPromise w))"

definition scheduled :: "world \<Rightarrow> world \<Rightarrow> bool" where
  "scheduled w w' \<longleftrightarrow>
     (\<exists>c. timers w' = timers w @ [\<lparr>handle = nextHandle w, due = clock w + 100, action = ConnectSocket c\<rparr>]) \<and>
     nextHandle w' = Suc (nextHandle w) \<and> clock w' = clock w \<and>
     promises w' = promises w \<and> nextPromise w' = nextPromise w \<and>
     pendingAcks (server w') = pendingAcks (server w)"

text \<open>A settled promise stays as it is.\<close>

definition kept :: "nat \<Rightarrow> outcome \<Rightarrow> world \<Rightarrow> bool" where
  "kept p out w \<longleftrightarrow> p < nextPromise w \<and> promises w p = Some (Settled out)"

subsection \<open>Requests and their time-outs\<close>

lemma promises_settle:
  "promises (settle q out w) p =
     (if q = p \<and> promises w p = Some Pending then Some (Settled out) else promises w p)"
  by (auto simp: settle_def split: option.splits promiseState.splits)

lemma promises_runCallback:
  "promises (runCallback w cb v) p =
     (if ackPromise cb = Some p \<and> promises w p = Some Pending then Some (Settled (Resolved v))
      else promises w p)"
  by (cases cb)
     (simp_all add: runCallback_def Let_def promises_settle setters_frame clearTimeout_frame)

lemma nextPromise_runCallback: "nextPromise (runCallback w cb v) = nextPromise w"
  by (cases cb) (simp_all add: runCallback_def Let_def settle_frame setters_frame clearTimeout_frame)

lemma server_runCallback: "server (runCallback w cb v) = server w"
  by (cases cb) (simp_all add: runCallback_def Let_def settle_frame setters_frame clearTimeout_frame)

lemma nextHandle_runCallback: "nextHandle (runCallback w cb v) = nextHandle w"
  by (cases cb) (simp_all add: runCallback_def Let_def settle_frame setters_frame clearTimeout_frame)

lemma clock_runCallback: "clock (runCallback w cb v) = clock w"
  by (cases cb) (simp_all add: runCallback_def Let_def settle_frame setters_frame clearTimeout_frame)

lemma promises_fire:
  "promises (fire w a) p =
     (if settledBy w a = Some p \<and> promises w p = Some Pending
      then Some (Settled (outcomeOf a)) else promises w p)"
proof (cases a)
  case (ExecuteAck c kind v)
  show ?thesis
  proof (cases "pendingAcks (server w) (c, kind)")
    case None
    then show ?thesis using ExecuteAck
      by (simp add: fire_def settledBy_def executeCallback_def)
  next
    case (Some cb)
    then show ?thesis using ExecuteAck
      by (simp add: fire_def settledBy_def outcomeOf_def executeCallback_def promises_runCallback)
  qed
next
  case (ConnectSocket c)
  then show ?thesis by (simp add: fire_def settledBy_def invokes_frame)
next
  case (CreateTimeout q)
  then show ?thesis
    by (simp add: fire_def settledBy_def outcomeOf_def promises_settle setters_frame)
next
  case (JoinTimeout q)
  then show ?thesis
    by (simp add: fire_def settledBy_def outcomeOf_def promises_settle setters_frame)
qed

lemma fire_keeps_settled:
  "promises w p = Some (Settled out) \<Longrightarrow> promises (fire w a) p = Some (Settled out)"
  by (simp add: promises_fire)

lemma fire_pending_before:
  "promises (fire w a) p = Some Pending \<Longrightarrow> promises w p = Some Pending \<and> settledBy w a \<noteq> Some p"
  by (simp add: promises_fire split: if_splits)

lemma fire_allocated: "promises w p \<noteq> None \<Longrightarrow> promises (fire w a) p \<noteq> None"
  by (simp add: promises_fire)

lemma nextPromise_fire: "nextPromise (fire w a) = nextPromise w"
  by (cases a)
     (simp_all add: fire_def executeCallback_def nextPromise_runCallback settle_frame setters_frame
        invokes_frame split: option.splits)

lemma nextHandle_fire: "nextHandle (fire w a) = nextHandle w"
  by (cases a)
     (simp_all add: fire_def executeCallback_def nextHandle_runCallback settle_frame setters_frame
        invokes_frame split: option.splits)

lemma clock_fire: "clock (fire w a) = clock w"
  by (cases a)
     (simp_all add: fire_def executeCallback_def clock_runCallback settle_frame setters_frame
        invokes_frame split: option.splits)

lemma pendingAcks_fire:
  "pendingAcks (server (fire w a)) k = Some cb \<Longrightarrow> pendingAcks (server w) k = Some cb"
proof (cases a)
  case (ExecuteAck c kind v)
  assume h: "pendingAcks (server (fire w a)) k = Some cb"
  show ?thesis
  proof (cases "pendingAcks (server w) (c, kind)")
    case None
    with h ExecuteAck show ?thesis by (simp add: fire_def executeCallback_def)
  next
    case (Some cb')
    with h ExecuteAck show ?thesis
      by (simp add: fire_def executeCallback_def server_runCallback split: if_splits)
  qed
next
  case (ConnectSocket c)
  assume "pendingAcks (server (fire w a)) k = Some cb"
  with ConnectSocket show ?thesis by (simp add: fire_def invokes_frame)
next
  case (CreateTimeout q)
  assume "pendingAcks (server (fire w a)) k = Some cb"
  with CreateTimeout show ?thesis by (simp add: fire_def settle_frame setters_frame)
next
  case (JoinTimeout q)
  assume "pendingAcks (server (fire w a)) k = Some cb"
  with JoinTimeout show ?thesis by (simp add: fire_def settle_frame setters_frame)
qed

lemma timers_fire_kept:
  assumes "tm0 \<in> set (timers w)"
    and "\<And>c kind v cb h. a = ExecuteAck c kind v \<Longrightarrow> pendingAcks (server w) (c, kind) = Some cb \<Longrightarrow>
           ackHandle cb = Some h \<Longrightarrow> handle tm0 \<noteq> h"
  shows "tm0 \<in> set (timers (fire w a))"
proof (cases a)
  case (ExecuteAck c kind v)
  show ?thesis
  proof (cases "pendingAcks (server w) (c, kind)")
    case None
    then show ?thesis using assms(1) ExecuteAck by (simp add: timers_fire)
  next
    case (Some cb)
    have "tm0 \<in> set (timers (runCallback (w\<lparr>server := fst (executeCallback (server w) c kind)\<rparr>) cb v))"
    proof (cases cb)
      case (CreateAck q t)
      with assms(2)[OF ExecuteAck Some, of t] assms(1) show ?thesis
        by (simp add: timers_runCallback)
    next
      case (JoinAck q t r)
      with assms(2)[OF ExecuteAck Some, of t] assms(1) show ?thesis
        by (simp add: timers_runCallback)
    next
      case (AppCallback n)
      with assms(1) show ?thesis by (simp add: timers_runCallback)
    qed
    then show ?thesis using ExecuteAck Some by (simp add: timers_fire)
  qed
next
  case (ConnectSocket c)
  then show ?thesis using assms(1) by (simp add: timers_fire)
next
  case (CreateTimeout q)
  then show ?thesis using assms(1) by (simp add: timers_fire)
next
  case (JoinTimeout q)
  then show ?thesis using assms(1) by (simp add: timers_fire)
qed

lemma takeTimer_frame:
  "server (takeTimer tm w) = server w" "promises (takeTimer tm w) = promises w"
  "nextPromise (takeTimer tm w) = nextPromise w" "nextHandle (takeTimer tm w) = nextHandle w"
  "timers (takeTimer tm w) = remove1 tm (timers w)"
  "clock (takeTimer tm w) = max (clock w) (due tm)"
  by (simp_all add: takeTimer_def)

lemma settledBy_takeTimer: "settledBy (takeTimer tm w) a = settledBy w a"
  by (cases a) (simp_all add: settledBy_def takeTimer_frame)

lemma in_remove1D: "x \<in> set (remove1 y xs) \<Longrightarrow> x \<in> set xs"
  using set_remove1_subset by fastforce

lemma paired_fired:
  assumes "paired w"
  shows "paired (fire (takeTimer tm w) (action tm))"
  unfolding paired_def
proof (intro allI impI ballI)
  fix k cb h tm0
  assume a: "pendingAcks (server (fire (takeTimer tm w) (action tm))) k = Some cb"
    and b: "ackHandle cb = Some h"
    and c: "tm0 \<in> set (timers (fire (takeTimer tm w) (action tm)))"
    and d: "handle tm0 = h"
  from a have a': "pendingAcks (server w) k = Some cb"
    using pendingAcks_fire[of "takeTimer tm w" "action tm" k cb] by (simp add: takeTimer_frame)
  from c have "tm0 \<in> set (timers (takeTimer tm w))" using timers_fire_subset by blast
  then have c': "tm0 \<in> set (timers w)" by (auto simp: takeTimer_frame dest: in_remove1D)
  from assms a' b c' d show "timeoutOf (action tm0) = ackPromise cb"
    unfolding paired_def by blast
qed

lemma handlesFresh_fired:
  assumes "handlesFresh w"
  shows "handlesFresh (fire (takeTimer tm w) (action tm))"
  unfolding handlesFresh_def
proof (intro conjI allI impI ballI)
  fix tm0 assume "tm0 \<in> set (timers (fire (takeTimer tm w) (action tm)))"
  then have "tm0 \<in> set (timers (takeTimer tm w))" using timers_fire_subset by blast
  then have "tm0 \<in> set (timers w)" by (auto simp: takeTimer_frame dest: in_remove1D)
  with assms show "handle tm0 < nextHandle (fire (takeTimer tm w) (action tm))"
    by (simp add: handlesFresh_def nextHandle_fire takeTimer_frame)
next
  fix k cb h
  assume a: "pendingAcks (server (fire (takeTimer tm w) (action tm))) k = Some cb"
    and b: "ackHandle cb = Some h"
  from a have "pendingAcks (server w) k = Some cb"
    using pendingAcks_fire[of "takeTimer tm w" "action tm" k cb] by (simp add: takeTimer_frame)
  with assms b have "h < nextHandle w" unfolding handlesFresh_def by blast
  then show "h < nextHandle (fire (takeTimer tm w) (action tm))"
    by (simp add: nextHandle_fire takeTimer_frame)
qed

lemma armed_fired:
  assumes "paired w" "armed p T w" "tm \<in> set (timers w)"
  shows "armed p T (fire (takeTimer tm w) (action tm))"
proof -
  let ?w' = "fire (takeTimer tm w) (action tm)"
  from assms(2) have lt: "p < nextPromise w" and al: "promises w p \<noteq> None"
    and ar: "promises w p = Some Pending \<Longrightarrow>
             \<exists>tm0\<in>set (timers w). due tm0 \<le> T \<and> timeoutOf (action tm0) = Some p"
    by (auto simp: armed_def)
  have 1: "p < nextPromise ?w'" using lt by (simp add: nextPromise_fire takeTimer_frame)
  have 2: "promises ?w' p \<noteq> None"
    using al fire_allocated[of "takeTimer tm w" p "action tm"] by (simp add: takeTimer_frame)
  have 3: "\<exists>tm0\<in>set (timers ?w'). due tm0 \<le> T \<and> timeoutOf (action tm0) = Some p"
    if pend: "promises ?w' p = Some Pending"
  proof -
    from fire_pending_before[OF pend]
    have pb: "promises w p = Some Pending" and ns: "settledBy w (action tm) \<noteq> Some p"
      by (simp_all add: takeTimer_frame settledBy_takeTimer)
    from ar[OF pb] obtain tm0 where t0: "tm0 \<in> set (timers w)" "due tm0 \<le> T"
      "timeoutOf (action tm0) = Some p" by blast
    have ne: "tm0 \<noteq> tm"
    proof
      assume "tm0 = tm"
      with t0(3) have "settledBy w (action tm) = Some p"
        by (cases "action tm") (simp_all add: settledBy_def)
      with ns show False by simp
    qed
    with t0(1) have in1: "tm0 \<in> set (timers (takeTimer tm w))" by (simp add: takeTimer_frame)
    have "tm0 \<in> set (timers ?w')"
      using in1
    proof (rule timers_fire_kept)
      fix c kind v cb h
      assume a: "action tm = ExecuteAck c kind v"
        and b: "pendingAcks (server (takeTimer tm w)) (c, kind) = Some cb"
        and c: "ackHandle cb = Some h"
      show "handle tm0 \<noteq> h"
      proof
        assume hh: "handle tm0 = h"
        from b have b': "pendingAcks (server w) (c, kind) = Some cb" by (simp add: takeTimer_frame)
        from assms(1) b' c t0(1) hh have "timeoutOf (action tm0) = ackPromise cb"
          unfolding paired_def by blast
        with t0(3) have "ackPromise cb = Some p" by simp
        with a b' have "settledBy w (action tm) = Some p"
          by (simp add: settledBy_def)
        with ns show False by simp
      qed
    qed
    with t0 show ?thesis by blast
  qed
  show ?thesis unfolding armed_def using 1 2 3 by blast
qed

declare runUntil.simps [simp del]

lemma runUntil_None: "nextTimer t w = None \<Longrightarrow> runUntil t w = w\<lparr>clock := max (clock w) t\<rparr>"
  by (subst runUntil.simps) simp

lemma runUntil_Some:
  "nextTimer t w = Some tm \<Longrightarrow> runUntil t w = runUntil t (fire (takeTimer tm w) (action tm))"
  by (subst runUntil.simps) simp

lemma runUntil_timers:
  "set (timers (runUntil t w)) \<subseteq> set (timers w) \<and> (\<forall>tm\<in>set (timers (runUntil t w)). t < due tm)"
proof (induction t w rule: runUntil.induct)
  case (1 t w)
  show ?case
  proof (cases "nextTimer t w")
    case None
    then show ?thesis using nextTimer_None[OF None] by (simp add: runUntil_None)
  next
    case (Some tm)
    let ?w1 = "fire (takeTimer tm w) (action tm)"
    have "set (timers ?w1) \<subseteq> set (timers (takeTimer tm w))" by (rule timers_fire_subset)
    also have "\<dots> \<subseteq> set (timers w)" by (auto simp: takeTimer_frame dest: in_remove1D)
    finally have sub: "set (timers ?w1) \<subseteq> set (timers w)" .
    from "1.IH"[OF Some] sub show ?thesis by (auto simp: runUntil_Some[OF Some])
  qed
qed

lemma runUntil_frame:
  "clock (runUntil t w) = max (clock w) t \<and> nextPromise (runUntil t w) = nextPromise w \<and>
   nextHandle (runUntil t w) = nextHandle w"
proof (induction t w rule: runUntil.induct)
  case (1 t w)
  show ?case
  proof (cases "nextTimer t w")
    case None
    then show ?thesis by (simp add: runUntil_None)
  next
    case (Some tm)
    from nextTimer_in[OF Some] have "due tm \<le> t" by simp
    with "1.IH"[OF Some] show ?thesis
      by (simp add: runUntil_Some[OF Some] clock_fire nextPromise_fire nextHandle_fire takeTimer_frame)
  qed
qed

lemma runUntil_keeps_settled:
  "promises w p = Some (Settled out) \<Longrightarrow> promises (runUntil t w) p = Some (Settled out)"
proof (induction t w rule: runUntil.induct)
  case (1 t w)
  show ?case
  proof (cases "nextTimer t w")
    case None
    then show ?thesis using "1.prems" by (simp add: runUntil_None)
  next
    case (Some tm)
    have "promises (fire (takeTimer tm w) (action tm)) p = Some (Settled out)"
      using "1.prems" by (simp add: fire_keeps_settled takeTimer_frame)
    from "1.IH"[OF Some this] show ?thesis by (simp add: runUntil_Some[OF Some])
  qed
qed

lemma paired_clock: "paired (w\<lparr>clock := n\<rparr>) = paired w"
  by (simp add: paired_def)

lemma handlesFresh_clock: "handlesFresh (w\<lparr>clock := n\<rparr>) = handlesFresh w"
  by (simp add: handlesFresh_def)

lemma armed_clock: "armed p T (w\<lparr>clock := n\<rparr>) = armed p T w"
  by (simp add: armed_def)

lemma runUntil_invariants:
  "paired w \<Longrightarrow> handlesFresh w \<Longrightarrow> paired (runUntil t w) \<and> handlesFresh (runUntil t w)"
proof (induction t w rule: runUntil.induct)
  case (1 t w)
  show ?case
  proof (cases "nextTimer t w")
    case None
    then show ?thesis using "1.prems"
      by (simp add: runUntil_None paired_clock handlesFresh_clock)
  next
    case (Some tm)
    have "paired (fire (takeTimer tm w) (action tm))" using "1.prems"(1) by (rule paired_fired)
    moreover have "handlesFresh (fire (takeTimer tm w) (action tm))"
      using "1.prems"(2) by (rule handlesFresh_fired)
    ultimately show ?thesis using "1.IH"[OF Some] by (simp add: runUntil_Some[OF Some])
  qed
qed

lemma runUntil_armed:
  "paired w \<Longrightarrow> armed p T w \<Longrightarrow> armed p T (runUntil t w)"
proof (induction t w rule: runUntil.induct)
  case (1 t w)
  show ?case
  proof (cases "nextTimer t w")
    case None
    then show ?thesis using "1.prems" by (simp add: runUntil_None armed_clock)
  next
    case (Some tm)
    from nextTimer_in[OF Some] have tin: "tm \<in> set (timers w)" by simp
    have "paired (fire (takeTimer tm w) (action tm))" using "1.prems"(1) by (rule paired_fired)
    moreover have "armed p T (fire (takeTimer tm w) (action tm))"
      using "1.prems" tin by (rule armed_fired)
    ultimately show ?thesis using "1.IH"[OF Some] by (simp add: runUntil_Some[OF Some])
  qed
qed

lemma runUntil_punctual: "punctual w \<Longrightarrow> punctual (runUntil t w)"
  unfolding punctual_def
proof
  fix tm assume p: "\<forall>tm\<in>set (timers w). clock w < due tm" and i: "tm \<in> set (timers (runUntil t w))"
  from runUntil_timers[of t w] i have "tm \<in> set (timers w)" "t < due tm" by auto
  with p show "clock (runUntil t w) < due tm" by (simp add: runUntil_frame)
qed

lemma runUntil_orderly: "orderly w \<Longrightarrow> orderly (runUntil t w)"
  by (simp add: orderly_def runUntil_invariants runUntil_punctual)

lemma armed_settled:
  assumes "punctual w" "armed p T w" "T \<le> clock w"
  shows "\<exists>out. promises w p = Some (Settled out)"
proof -
  have "promises w p \<noteq> Some Pending"
  proof
    assume "promises w p = Some Pending"
    with assms(2) obtain tm where "tm \<in> set (timers w)" "due tm \<le> T" by (auto simp: armed_def)
    with assms(1,3) show False by (auto simp: punctual_def)
  qed
  moreover from assms(2) obtain st where "promises w p = Some st" by (auto simp: armed_def)
  ultimately show ?thesis by (cases st) auto
qed

lemma quiet_orderly: "quiet w w' \<Longrightarrow> orderly w \<Longrightarrow> orderly w'"
  by (simp add: quiet_def orderly_def paired_def handlesFresh_def punctual_def)

lemma quiet_armed: "quiet w w' \<Longrightarrow> armed p T w \<Longrightarrow> armed p T w'"
  by (simp add: quiet_def armed_def)

lemma answered_orderly: "answered w w' \<Longrightarrow> orderly w \<Longrightarrow> orderly w'"
  by (simp add: answered_def orderly_def paired_def handlesFresh_def punctual_def)

lemma answered_armed: "answered w w' \<Longrightarrow> armed p T w \<Longrightarrow> armed p T w'"
  by (auto simp: answered_def armed_def)

lemma answered_new: "answered w w' \<Longrightarrow> armed (nextPromise w) T w'"
  by (auto simp: answered_def armed_def)

lemma scheduled_orderly:
  assumes "scheduled w w'" "orderly w"
  shows "orderly w'"
proof -
  from assms(1) obtain c where
    t: "timers w' = timers w @ [\<lparr>handle = nextHandle w, due = clock w + 100, action = ConnectSocket c\<rparr>]"
    and h: "nextHandle w' = Suc (nextHandle w)" and k: "clock w' = clock w"
    and a: "pendingAcks (server w') = pendingAcks (server w)"
    by (auto simp: scheduled_def)
  from assms(2) have P: "paired w" and F: "handlesFresh w" and U: "punctual w"
    by (simp_all add: orderly_def)
  have "paired w'"
    unfolding paired_def
  proof (intro allI impI ballI)
    fix k cb hh tm
    assume 1: "pendingAcks (server w') k = Some cb" and 2: "ackHandle cb = Some hh"
      and 3: "tm \<in> set (timers w')" and 4: "handle tm = hh"
    from 1 a have q1: "pendingAcks (server w) k = Some cb" by simp
    from F q1 2 have lt: "hh < nextHandle w" unfolding handlesFresh_def by blast
    from 3 t have "tm \<in> set (timers w) \<or> tm = \<lparr>handle = nextHandle w, due = clock w + 100, action = ConnectSocket c\<rparr>"
      by auto
    then show "timeoutOf (action tm) = ackPromise cb"
    proof
      assume "tm \<in> set (timers w)"
      with P q1 2 4 show ?thesis unfolding paired_def by blast
    next
      assume "tm = \<lparr>handle = nextHandle w, due = clock w + 100, action = ConnectSocket c\<rparr>"
      with 4 lt show ?thesis by simp
    qed
  qed
  moreover have "handlesFresh w'"
    using F unfolding handlesFresh_def t h a by (auto intro: less_SucI)
  moreover have "punctual w'"
    using U unfolding punctual_def t k by auto
  ultimately show ?thesis by (simp add: orderly_def)
qed

lemma scheduled_armed: "scheduled w w' \<Longrightarrow> armed p T w \<Longrightarrow> armed p T w'"
  by (auto simp: scheduled_def armed_def)

lemma requested_orderly:
  assumes "requested w w'" "orderly w"
  shows "orderly w'"
proof -
  from assms(1) obtain a ack k0 cb0 where
    t: "timers w' = timers w @
          [\<lparr>handle = nextHandle w, due = clock w + 5000, action = a\<rparr>,
           \<lparr>handle = Suc (nextHandle w), due = clock w + 300, action = ack\<rparr>]"
    and ta: "timeoutOf a = Some (nextPromise w)" and tk: "timeoutOf ack = None"
    and h: "nextHandle w' = Suc (Suc (nextHandle w))" and k: "clock w' = clock w"
    and pa: "pendingAcks (server w') = (pendingAcks (server w))(k0 \<mapsto> cb0)"
    and ah: "ackHandle cb0 = Some (nextHandle w)" and ap: "ackPromise cb0 = Some (nextPromise w)"
    unfolding requested_def by blast
  from assms(2) have P: "paired w" and F: "handlesFresh w" and U: "punctual w"
    by (simp_all add: orderly_def)
  have "paired w'"
    unfolding paired_def
  proof (intro allI impI ballI)
    fix k cb hh tm
    assume 1: "pendingAcks (server w') k = Some cb" and 2: "ackHandle cb = Some hh"
      and 3: "tm \<in> set (timers w')" and 4: "handle tm = hh"
    from 3 t consider (old) "tm \<in> set (timers w)"
      | (timeout) "tm = \<lparr>handle = nextHandle w, due = clock w + 5000, action = a\<rparr>"
      | (ack) "tm = \<lparr>handle = Suc (nextHandle w), due = clock w + 300, action = ack\<rparr>"
      by auto
    then show "timeoutOf (action tm) = ackPromise cb"
    proof cases
      case old
      with F have tl: "handle tm < nextHandle w" unfolding handlesFresh_def by blast
      show ?thesis
      proof (cases "k = k0")
        case True
        with 1 pa have "cb = cb0" by simp
        with 2 ah 4 tl show ?thesis by simp
      next
        case False
        with 1 pa have "pendingAcks (server w) k = Some cb" by simp
        with P 2 4 old show ?thesis unfolding paired_def by blast
      qed
    next
      case timeout
      show ?thesis
      proof (cases "k = k0")
        case True
        with 1 pa have "cb = cb0" by simp
        with timeout ta ap show ?thesis by simp
      next
        case False
        with 1 pa have "pendingAcks (server w) k = Some cb" by simp
        with F 2 have "hh < nextHandle w" unfolding handlesFresh_def by blast
        with timeout 4 show ?thesis by simp
      qed
    next
      case ack
      show ?thesis
      proof (cases "k = k0")
        case True
        with 1 pa have "cb = cb0" by simp
        with 2 ah 4 ack show ?thesis by simp
      next
        case False
        with 1 pa have "pendingAcks (server w) k = Some cb" by simp
        with F 2 have "hh < nextHandle w" unfolding handlesFresh_def by blast
        with ack 4 show ?thesis by simp
      qed
    qed
  qed
  moreover have "handlesFresh w'"
    unfolding handlesFresh_def
  proof (intro conjI allI impI ballI)
    fix tm assume "tm \<in> set (timers w')"
    with t F show "handle tm < nextHandle w'"
      unfolding handlesFresh_def h by (auto intro: less_SucI)
  next
    fix k cb hh
    assume 1: "pendingAcks (server w') k = Some cb" and 2: "ackHandle cb = Some hh"
    show "hh < nextHandle w'"
    proof (cases "k = k0")
      case True
      with 1 pa have "cb = cb0" by simp
      with 2 ah h show ?thesis by simp
    next
      case False
      with 1 pa have "pendingAcks (server w) k = Some cb" by simp
      with F 2 have "hh < nextHandle w" unfolding handlesFresh_def by blast
      with h show ?thesis by simp
    qed
  qed
  moreover have "punctual w'"
    using U unfolding punctual_def t k by auto
  ultimately show ?thesis by (simp add: orderly_def)
qed

lemma requested_armed: "requested w w' \<Longrightarrow> armed p T w \<Longrightarrow> armed p T w'"
  unfolding requested_def armed_def by auto

lemma requested_new: "requested w w' \<Longrightarrow> armed (nextPromise w) (clock w + 5000) w'"
  unfolding requested_def armed_def by auto

lemma pendingAcks_removeClient: "pendingAcks (removeClient reg c) = pendingAcks reg"
  by (simp add: removeClient_def Let_def split: option.splits)

lemma pendingAcks_joinRoom: "pendingAcks (fst (snd (joinRoom pol now reg c r))) = pendingAcks reg"
  by (simp add: joinRoom_def Let_def pendingAcks_removeClient split: option.splits)

lemma pendingAcks_createRoom:
  "createRoom now reg c cands = Some (r, reg') \<Longrightarrow> pendingAcks reg' = pendingAcks reg"
  by (auto simp: createRoom_def Let_def pendingAcks_removeClient split: option.splits)

lemma pendingAcks_loadPersistentRooms: "pendingAcks (loadPersistentRooms reg) = pendingAcks reg"
  by (simp add: loadPersistentRooms_def)

lemma pendingAcks_roomExists: "pendingAcks (snd (roomExists reg r)) = pendingAcks reg"
  by (simp add: roomExists_def Let_def pendingAcks_loadPersistentRooms)

lemma quiet_refl: "quiet w w"
  by (simp add: quiet_def)

lemma quiet_trans: "quiet w w1 \<Longrightarrow> quiet w1 w2 \<Longrightarrow> quiet w w2"
  by (simp add: quiet_def)

lemma quiet_answered: "quiet w w1 \<Longrightarrow> answered w1 w2 \<Longrightarrow> answered w w2"
  by (simp add: quiet_def answered_def)

lemma quiet_requested: "quiet w w1 \<Longrightarrow> requested w1 w2 \<Longrightarrow> requested w w2"
  by (simp add: quiet_def requested_def)

lemma quiet_clearedRoom: "quiet w (clearedRoom r w c)"
  by (simp add: quiet_def clearedRoom_frame pendingAcks_leaveRoom)

lemma quiet_facadeLeaveRoom: "facadeLeaveRoom e r w = Some w' \<Longrightarrow> quiet w w'"
  by (auto simp: facadeLeaveRoom_def emit_leave_room quiet_def setters_frame recordEmit_frame
      serverLeaveRoom_frame pendingAcks_leaveRoom split: option.splits if_splits)

lemma quiet_disconnect: "quiet w (snd (disconnect w c))"
  by (simp add: quiet_def disconnect_def invokes_frame)

lemma quiet_debugResetRooms: "quiet w (debugResetRooms w)"
  by (simp add: quiet_def debugResetRooms_def setters_frame clearAllRooms_def)

lemma scheduled_initSocket: "scheduled w (initSocket c w)"
  by (auto simp: scheduled_def initSocket_def setSocket_def socketOn_def createMockSocket_def
      serverOn_def setTimeout_def split: option.splits)

lemma emit_join_room_shape:
  "\<exists>w' b. emit e w c ''join-room'' [JStr r, JFun cb] = Some w' \<and>
     timers w' = timers w @ [\<lparr>handle = nextHandle w, due = clock w + 300,
                               action = ExecuteAck c ''join-room'' (JBool b)\<rparr>] \<and>
     nextHandle w' = Suc (nextHandle w) \<and> clock w' = clock w \<and>
     promises w' = promises w \<and> nextPromise w' = nextPromise w \<and>
     pendingAcks (server w') = (pendingAcks (server w))((c, ''join-room'') \<mapsto> cb)"
proof -
  let ?w1 = "w\<lparr>server := registerCallback (server w) c ''join-room'' cb\<rparr>"
  let ?w2 = "serverLeaveRoom ?w1 c"
  let ?w3 = "?w2\<lparr>server := loadPersistentRooms (server ?w2)\<rparr>"
  let ?res = "serverJoinRoom e ?w3 c (JStr r)"
  let ?w' = "recordEmit c ''join-room'' [JStr r, JFun cb]
               (setTimeout (ExecuteAck c ''join-room'' (JBool (fst ?res))) 300 (snd ?res))"
  have em: "emit e w c ''join-room'' [JStr r, JFun cb] = Some ?w'"
    by (simp add: emit_join_room Let_def)
  have tm: "timers ?w' = timers w @ [\<lparr>handle = nextHandle w, due = clock w + 300,
                               action = ExecuteAck c ''join-room'' (JBool (fst ?res))\<rparr>]"
    by (simp add: recordEmit_frame setTimeout_frame serverJoinRoom_frame serverLeaveRoom_frame)
  have fr: "nextHandle ?w' = Suc (nextHandle w)" "clock ?w' = clock w"
    "promises ?w' = promises w" "nextPromise ?w' = nextPromise w"
    by (simp_all add: recordEmit_frame setTimeout_frame serverJoinRoom_frame serverLeaveRoom_frame)
  have pa: "pendingAcks (server ?w') = (pendingAcks (server w))((c, ''join-room'') \<mapsto> cb)"
    by (simp add: recordEmit_frame setTimeout_frame serverJoinRoom_frame serverLeaveRoom_frame
        pendingAcks_joinRoom pendingAcks_loadPersistentRooms pendingAcks_leaveRoom
        registerCallback_def)
  show ?thesis using em tm fr pa by blast
qed

lemma emit_create_room_shape:
  assumes "emit e w c ''create-room'' [JFun cb] = Some w'"
  shows "\<exists>r. timers w' = timers w @ [\<lparr>handle = nextHandle w, due = clock w + 300,
                               action = ExecuteAck c ''create-room'' (JStr r)\<rparr>] \<and>
     nextHandle w' = Suc (nextHandle w) \<and> clock w' = clock w \<and>
     promises w' = promises w \<and> nextPromise w' = nextPromise w \<and>
     pendingAcks (server w') = (pendingAcks (server w))((c, ''create-room'') \<mapsto> cb)"
proof -
  let ?reg0 = "registerCallback (server w) c ''create-room'' cb"
  from assms obtain r reg' where
    cr: "createRoom (clock w) ?reg0 c (roomCodes e) = Some (r, reg')"
    and w': "w' = recordEmit c ''create-room'' [JFun cb]
                  (setTimeout (ExecuteAck c ''create-room'' (JStr r)) 300 (w\<lparr>server := reg'\<rparr>))"
    by (auto simp: emit_create_room split: option.splits)
  have pa: "pendingAcks reg' = (pendingAcks (server w))((c, ''create-room'') \<mapsto> cb)"
    using pendingAcks_createRoom[OF cr] by (simp add: registerCallback_def)
  show ?thesis
    by (rule exI[of _ r]) (simp add: w' recordEmit_frame setTimeout_frame pa)
qed

lemma emit_create_room_returns:
  assumes "\<exists>r\<in>set (roomCodes e). map_of (rooms (server w)) r = None"
  shows "\<exists>w'. emit e w c ''create-room'' [JFun cb] = Some w'"
proof -
  from assms have "find (\<lambda>r. map_of (rooms (registerCallback (server w) c ''create-room'' cb)) r = None)
                     (roomCodes e) \<noteq> None"
    by (auto simp: find_None_iff registerCallback_def)
  then show ?thesis
    by (auto simp: emit_create_room createRoom_def Let_def split: option.splits)
qed

lemma answered_newPromise:
  "quiet w w1 \<Longrightarrow> answered w (newPromise (Settled out) w1)"
  by (auto simp: quiet_def answered_def newPromise_frame)

lemma facadeCreateRoom_shape:
  assumes "facadeCreateRoom e r w = Some (p, w')"
  shows "p = nextPromise w \<and> (answered w w' \<or> requested w w')"
proof (cases "socket r")
  case None
  with assms have "p = nextPromise w" "w' = newPromise (Settled (Rejected ''Socket not connected'')) w"
    by (simp_all add: facadeCreateRoom_def)
  then show ?thesis using answered_newPromise[OF quiet_refl] by simp
next
  case (Some c)
  let ?p = "nextPromise w"
  let ?w2 = "newPromise Pending (setIsConnecting True w)"
  let ?w3 = "setTimeout (CreateTimeout ?p) 5000 ?w2"
  let ?cb = "CreateAck ?p (nextHandle w)"
  from assms Some have p: "p = ?p"
    and em: "emit e ?w3 c ''create-room'' [JFun ?cb] = Some w'"
    by (auto simp: facadeCreateRoom_def Let_def setters_frame newPromise_frame)
  from emit_create_room_shape[OF em] obtain r where
    t: "timers w' = timers ?w3 @ [\<lparr>handle = nextHandle ?w3, due = clock ?w3 + 300,
                               action = ExecuteAck c ''create-room'' (JStr r)\<rparr>]"
    and f: "nextHandle w' = Suc (nextHandle ?w3)" "clock w' = clock ?w3"
      "promises w' = promises ?w3" "nextPromise w' = nextPromise ?w3"
    and pa: "pendingAcks (server w') = (pendingAcks (server ?w3))((c, ''create-room'') \<mapsto> ?cb)"
    by blast
  have "requested w w'"
    unfolding requested_def
    apply (rule exI[of _ "CreateTimeout ?p"])
    apply (rule exI[of _ "ExecuteAck c ''create-room'' (JStr r)"])
    apply (rule exI[of _ "(c, ''create-room'')"])
    apply (rule exI[of _ ?cb])
    apply (simp add: t f pa setTimeout_frame newPromise_frame setters_frame)
    done
  with p show ?thesis by simp
qed

lemma facadeJoinRoom_shape:
  "\<exists>w'. facadeJoinRoom e r w s = Some (nextPromise w, w') \<and> (answered w w' \<or> requested w w')"
proof (cases "socket r")
  case None
  then have "facadeJoinRoom e r w s =
      Some (nextPromise w, newPromise (Settled (Rejected ''Socket not connected'')) w)"
    by (simp add: facadeJoinRoom_def)
  then show ?thesis using answered_newPromise[OF quiet_refl] by simp
next
  case (Some c)
  let ?w2 = "clearedRoom r w c"
  have q2: "quiet w ?w2" by (rule quiet_clearedRoom)
  have first: "(if jsTruthy (roomId r) then facadeLeaveRoom e r (setIsConnecting True w)
          else Some (setIsConnecting True w)) = Some ?w2"
    using Some by (rule facadeLeaveRoom_first)
  show ?thesis
  proof (cases "length s \<noteq> 6")
    case True
    have q: "quiet w (toast ''Invalid room code'' (setIsConnecting False ?w2))"
      using q2 by (simp add: quiet_def setters_frame)
    show ?thesis
      unfolding facadeJoinRoom_malformed[OF Some True]
      using answered_newPromise[OF q] by simp
  next
    case False
    then have len: "length s = 6" "s \<noteq> []" by auto
    obtain exists reg' where re: "roomExists (loadPersistentRooms (server ?w2)) s = (exists, reg')"
      by (cases "roomExists (loadPersistentRooms (server ?w2)) s")
    have pr: "pendingAcks reg' = pendingAcks (server w)"
      using pendingAcks_roomExists[of "loadPersistentRooms (server ?w2)" s] re q2
      by (simp add: pendingAcks_loadPersistentRooms quiet_def)
    have q3: "quiet w (?w2\<lparr>server := reg'\<rparr>)" using q2 pr by (simp add: quiet_def)
    show ?thesis
    proof (cases exists)
      case False
      have q: "quiet w (toast ''Room not found'' (setIsConnecting False (?w2\<lparr>server := reg'\<rparr>)))"
        using q3 by (simp add: quiet_def setters_frame)
      have eq: "facadeJoinRoom e r w s = Some (nextPromise w,
          newPromise (Settled (Resolved (JBool False)))
            (toast ''Room not found'' (setIsConnecting False (?w2\<lparr>server := reg'\<rparr>))))"
        using Some len False re first
        by (simp add: facadeJoinRoom_def clearedRoom_frame del: One_nat_def)
      show ?thesis unfolding eq using answered_newPromise[OF q] by simp
    next
      case True
      let ?p = "nextPromise w"
      let ?w3 = "newPromise Pending (?w2\<lparr>server := reg'\<rparr>)"
      let ?w4 = "setTimeout (JoinTimeout ?p) 5000 ?w3"
      let ?cb = "JoinAck ?p (nextHandle ?w3) s"
      have eq: "facadeJoinRoom e r w s = map_option (Pair ?p) (emit e ?w4 c ''join-room'' [JStr s, JFun ?cb])"
        using Some len True re first
        by (simp add: facadeJoinRoom_def clearedRoom_frame Let_def del: One_nat_def)
      from emit_join_room_shape[of e ?w4 c s ?cb] obtain w' b where
        em: "emit e ?w4 c ''join-room'' [JStr s, JFun ?cb] = Some w'"
        and t: "timers w' = timers ?w4 @ [\<lparr>handle = nextHandle ?w4, due = clock ?w4 + 300,
                               action = ExecuteAck c ''join-room'' (JBool b)\<rparr>]"
        and f: "nextHandle w' = Suc (nextHandle ?w4)" "clock w' = clock ?w4"
          "promises w' = promises ?w4" "nextPromise w' = nextPromise ?w4"
        and pa: "pendingAcks (server w') = (pendingAcks (server ?w4))((c, ''join-room'') \<mapsto> ?cb)"
        by blast
      have h3: "nextHandle ?w3 = nextHandle w" "clock ?w3 = clock w" "timers ?w3 = timers w"
        "nextPromise ?w3 = Suc (nextPromise w)" "promises ?w3 = (promises w)(nextPromise w \<mapsto> Pending)"
        "pendingAcks (server ?w3) = pendingAcks (server w)"
        using q3 by (simp_all add: quiet_def newPromise_frame)
      have "requested w w'"
        unfolding requested_def
        apply (rule exI[of _ "JoinTimeout ?p"])
        apply (rule exI[of _ "ExecuteAck c ''join-room'' (JBool b)"])
        apply (rule exI[of _ "(c, ''join-room'')"])
        apply (rule exI[of _ ?cb])
        apply (simp add: t f pa setTimeout_frame h3)
        done
      then show ?thesis using eq em by simp
    qed
  qed
qed

lemma facadeCreateRoom_returns:
  assumes "\<exists>r\<in>set (roomCodes e). map_of (rooms (server w)) r = None"
  shows "\<exists>p w'. facadeCreateRoom e rd w = Some (p, w')"
proof (cases "socket rd")
  case None
  then show ?thesis by (simp add: facadeCreateRoom_def)
next
  case (Some c)
  let ?w3 = "setTimeout (CreateTimeout (nextPromise w)) 5000 (newPromise Pending (setIsConnecting True w))"
  have "\<exists>r\<in>set (roomCodes e). map_of (rooms (server ?w3)) r = None"
    using assms by (simp add: setTimeout_frame newPromise_frame setters_frame)
  from emit_create_room_returns[OF this, of c "CreateAck (nextPromise w) (nextHandle w)"]
  show ?thesis using Some
    by (auto simp: facadeCreateRoom_def Let_def setters_frame newPromise_frame)
qed

lemma perform_shape:
  assumes "perform e w x = Some w'"
  shows "quiet w w' \<or> answered w w' \<or> requested w w' \<or> scheduled w w' \<or> (\<exists>t. x = Wait t \<and> w' = runUntil t w)"
proof (cases x)
  case (Init c)
  with assms show ?thesis using scheduled_initSocket by auto
next
  case (Create r)
  with assms obtain p where "facadeCreateRoom e r w = Some (p, w')" by auto
  from facadeCreateRoom_shape[OF this] show ?thesis by blast
next
  case (Join r s)
  with assms facadeJoinRoom_shape[of e r w s] show ?thesis by auto
next
  case (Leave r)
  with assms show ?thesis using quiet_facadeLeaveRoom by auto
next
  case (Disconnect c)
  with assms show ?thesis using quiet_disconnect quiet_refl by (auto split: option.splits)
next
  case Reset
  with assms show ?thesis using quiet_debugResetRooms by auto
next
  case (Wait t)
  with assms show ?thesis by auto
qed

lemma perform_orderly: "perform e w x = Some w' \<Longrightarrow> orderly w \<Longrightarrow> orderly w'"
  using perform_shape[of e w x w']
  by (auto intro: quiet_orderly answered_orderly requested_orderly scheduled_orderly runUntil_orderly)

lemma perform_armed:
  assumes "perform e w x = Some w'" "orderly w" "armed p T w"
  shows "armed p T w'"
proof -
  from assms(2) have P: "paired w" by (simp add: orderly_def)
  from perform_shape[OF assms(1)] show ?thesis
    using assms(3) P
    by (auto intro: quiet_armed answered_armed requested_armed scheduled_armed runUntil_armed)
qed

lemma performAll_invariants:
  "performAll e w xs = Some w' \<Longrightarrow> orderly w \<Longrightarrow> armed p T w \<Longrightarrow> orderly w' \<and> armed p T w'"
proof (induction xs arbitrary: w)
  case Nil
  then show ?case by simp
next
  case (Cons x xs)
  from Cons.prems(1) obtain w1 where s: "perform e w x = Some w1" and r: "performAll e w1 xs = Some w'"
    by (auto split: option.splits)
  from perform_orderly[OF s Cons.prems(2)] perform_armed[OF s Cons.prems(2,3)]
  show ?case using Cons.IH[OF r] by blast
qed

lemma performAll_orderly: "performAll e w xs = Some w' \<Longrightarrow> orderly w \<Longrightarrow> orderly w'"
proof (induction xs arbitrary: w)
  case Nil
  then show ?case by simp
next
  case (Cons x xs)
  from Cons.prems(1) obtain w1 where s: "perform e w x = Some w1" and r: "performAll e w1 xs = Some w'"
    by (auto split: option.splits)
  from perform_orderly[OF s Cons.prems(2)] show ?case using Cons.IH[OF r] by blast
qed

lemma orderly_initialWorld: "orderly initialWorld"
  by (simp add: orderly_def paired_def handlesFresh_def punctual_def initialWorld_def
      initialRegistry_def)

lemma perform_kept:
  assumes "perform e w x = Some w'" "kept p out w"
  shows "kept p out w'"
proof -
  from perform_shape[OF assms(1)] show ?thesis
    using assms(2)
    by (auto simp: kept_def quiet_def answered_def requested_def scheduled_def runUntil_frame
        runUntil_keeps_settled)
qed

lemma performAll_kept: "performAll e w xs = Some w' \<Longrightarrow> kept p out w \<Longrightarrow> kept p out w'"
proof (induction xs arbitrary: w)
  case Nil
  then show ?case by simp
next
  case (Cons x xs)
  from Cons.prems(1) obtain w1 where s: "perform e w x = Some w1" and r: "performAll e w1 xs = Some w'"
    by (auto split: option.splits)
  from perform_kept[OF s Cons.prems(2)] show ?case using Cons.IH[OF r] by blast
qed

lemma facadeCreateRoom_requested:
  assumes "facadeCreateRoom e r w = Some (p, w')" "socket r = Some c"
  shows "promises w' p = Some Pending"
proof -
  let ?p = "nextPromise w"
  let ?w3 = "setTimeout (CreateTimeout ?p) 5000 (newPromise Pending (setIsConnecting True w))"
  from assms have p: "p = ?p"
    and em: "emit e ?w3 c ''create-room'' [JFun (CreateAck ?p (nextHandle w))] = Some w'"
    by (auto simp: facadeCreateRoom_def Let_def setters_frame newPromise_frame)
  from emit_create_room_shape[OF em] have "promises w' = promises ?w3" by blast
  then show ?thesis by (simp add: p setTimeout_frame newPromise_frame setters_frame)
qed

lemma ui_socket_runCallback: "socket (ui (runCallback w cb v)) = socket (ui w)"
  by (cases cb) (simp_all add: runCallback_def Let_def settle_frame setters_frame clearTimeout_frame)

lemma rooms_fire: "rooms (server (fire w a)) = rooms (server w) \<and> socket (ui (fire w a)) = socket (ui w)"
  by (cases a)
     (simp_all add: fire_def executeCallback_def server_runCallback ui_socket_runCallback
        settle_frame setters_frame invokes_frame split: option.splits)

lemma runUntil_rooms:
  "rooms (server (runUntil t w)) = rooms (server w) \<and> socket (ui (runUntil t w)) = socket (ui w)"
proof (induction t w rule: runUntil.induct)
  case (1 t w)
  show ?case
  proof (cases "nextTimer t w")
    case None
    then show ?thesis by (simp add: runUntil_None)
  next
    case (Some tm)
    from "1.IH"[OF Some] show ?thesis
      by (simp add: runUntil_Some[OF Some] rooms_fire takeTimer_def)
  qed
qed

text \<open>
  Claim C6. Take any session from the initial world, a \<^verbatim>\<open>createRoom\<close> or \<^verbatim>\<open>joinRoom\<close>
  request of any render issued then with promise \<open>p\<close>, and any calls and passage of time
  after it. Once the clock has reached the time of the request plus 5000 ms, the promise
  is settled. A settled promise keeps its outcome through everything that follows, and an
  acknowledgement callback of the request that runs when the promise is already settled
  (rejected by the time-out, say) leaves the outcome as it is. \<^verbatim>\<open>joinRoom\<close> always returns
  its promise, and \<^verbatim>\<open>createRoom\<close> does whenever the generator yields an unused room code.
\<close>

theorem requests_settle_once_within_timeout:
  assumes "performAll e initialWorld before = Some w"
    and "facadeCreateRoom e rd w = Some (p, w1) \<or> facadeJoinRoom e rd w s = Some (p, w1)"
    and "performAll e w1 later = Some w2"
    and "performAll e w2 rest = Some w3"
  shows "(clock w + 5000 \<le> clock w2 \<longrightarrow> (\<exists>out. promises w2 p = Some (Settled out))) \<and>
         (\<forall>out. promises w2 p = Some (Settled out) \<longrightarrow>
            promises w3 p = Some (Settled out) \<and>
            (\<forall>t v. promises (runCallback w2 (CreateAck p t) v) p = Some (Settled out)) \<and>
            (\<forall>t r v. promises (runCallback w2 (JoinAck p t r) v) p = Some (Settled out))) \<and>
         (\<exists>p' w'. facadeJoinRoom e rd w s = Some (p', w')) \<and>
         ((\<exists>r\<in>set (roomCodes e). map_of (rooms (server w)) r = None) \<longrightarrow>
            (\<exists>p' w'. facadeCreateRoom e rd w = Some (p', w')))"
proof -
  have ow: "orderly w" using assms(1) orderly_initialWorld by (rule performAll_orderly)
  have sh: "p = nextPromise w \<and> (answered w w1 \<or> requested w w1)"
  proof -
    from assms(2) show ?thesis
    proof
      assume "facadeCreateRoom e rd w = Some (p, w1)"
      then show ?thesis by (rule facadeCreateRoom_shape)
    next
      assume j: "facadeJoinRoom e rd w s = Some (p, w1)"
      from facadeJoinRoom_shape[of e rd w s] j show ?thesis by auto
    qed
  qed
  have o1: "orderly w1" using sh ow by (auto intro: answered_orderly requested_orderly)
  have a1: "armed p (clock w + 5000) w1" using sh by (auto intro: answered_new requested_new)
  from performAll_invariants[OF assms(3) o1 a1]
  have o2: "orderly w2" and a2: "armed p (clock w + 5000) w2" by simp_all
  have part1: "clock w + 5000 \<le> clock w2 \<longrightarrow> (\<exists>out. promises w2 p = Some (Settled out))"
  proof
    assume "clock w + 5000 \<le> clock w2"
    moreover from o2 have "punctual w2" by (simp add: orderly_def)
    ultimately show "\<exists>out. promises w2 p = Some (Settled out)" using a2 by (auto intro: armed_settled)
  qed
  have part2: "promises w3 p = Some (Settled out) \<and>
            (\<forall>t v. promises (runCallback w2 (CreateAck p t) v) p = Some (Settled out)) \<and>
            (\<forall>t r v. promises (runCallback w2 (JoinAck p t r) v) p = Some (Settled out))"
    if st: "promises w2 p = Some (Settled out)" for out
  proof -
    from a2 st have "kept p out w2" by (simp add: kept_def armed_def)
    from performAll_kept[OF assms(4) this] have "promises w3 p = Some (Settled out)"
      by (simp add: kept_def)
    then show ?thesis using st by (simp add: promises_runCallback)
  qed
  have part3: "\<exists>p' w'. facadeJoinRoom e rd w s = Some (p', w')"
    using facadeJoinRoom_shape[of e rd w s] by blast
  have part4: "(\<exists>r\<in>set (roomCodes e). map_of (rooms (server w)) r = None) \<longrightarrow>
            (\<exists>p' w'. facadeCreateRoom e rd w = Some (p', w'))"
    using facadeCreateRoom_returns by blast
  show ?thesis
  proof (intro conjI allI)
    show "clock w + 5000 \<le> clock w2 \<longrightarrow> (\<exists>out. promises w2 p = Some (Settled out))" by (rule part1)
    show "promises w2 p = Some (Settled out) \<longrightarrow>
            promises w3 p = Some (Settled out) \<and>
            (\<forall>t v. promises (runCallback w2 (CreateAck p t) v) p = Some (Settled out)) \<and>
            (\<forall>t r v. promises (runCallback w2 (JoinAck p t r) v) p = Some (Settled out))" for out
      using part2 by blast
    show "\<exists>p' w'. facadeJoinRoom e rd w s = Some (p', w')" by (rule part3)
    show "(\<exists>r\<in>set (roomCodes e). map_of (rooms (server w)) r = None) \<longrightarrow>
            (\<exists>p' w'. facadeCreateRoom e rd w = Some (p', w'))" by (rule part4)
  qed
qed

theorem requests_settle_once_within_timeout_witness:
  "\<exists>w p w1 w2. performAll scenarioEnv initialWorld [Init ''u1'', Wait 100] = Some w \<and>
     facadeCreateRoom scenarioEnv (ui w) w = Some (p, w1) \<and>
     promises w1 p = Some Pending \<and>
     performAll scenarioEnv w1 [Wait 6000] = Some w2 \<and>
     clock w + 5000 \<le> clock w2 \<and>
     (\<exists>out. promises w2 p = Some (Settled out))"
proof -
  let ?w = "runUntil 100 (initSocket ''u1'' initialWorld)"
  have b: "performAll scenarioEnv initialWorld [Init ''u1'', Wait 100] = Some ?w" by simp
  have rs: "rooms (server ?w) = []" "socket (ui ?w) = Some ''u1''"
    by (simp_all add: runUntil_rooms initSocket_def setSocket_def socketOn_def createMockSocket_def
        serverOn_def setTimeout_def initialWorld_def initialRegistry_def split: option.splits)
  have "\<exists>r\<in>set (roomCodes scenarioEnv). map_of (rooms (server ?w)) r = None"
    by (simp add: rs scenarioEnv_def)
  from facadeCreateRoom_returns[OF this] obtain p w1 where
    c: "facadeCreateRoom scenarioEnv (ui ?w) ?w = Some (p, w1)" by blast
  have pend: "promises w1 p = Some Pending" using c rs(2) by (rule facadeCreateRoom_requested)
  have l: "performAll scenarioEnv w1 [Wait 6000] = Some (runUntil 6000 w1)" by simp
  have k0: "clock (initSocket ''u1'' initialWorld) = 0"
    by (simp add: initSocket_def setSocket_def socketOn_def createMockSocket_def
        serverOn_def setTimeout_def initialWorld_def split: option.splits)
  have k: "clock ?w = 100" by (simp add: runUntil_frame k0)
  have "6000 \<le> clock (runUntil 6000 w1)" by (simp add: runUntil_frame)
  with k have t: "clock ?w + 5000 \<le> clock (runUntil 6000 w1)" by simp
  have r: "performAll scenarioEnv (runUntil 6000 w1) [] = Some (runUntil 6000 w1)" by simp
  from requests_settle_once_within_timeout [OF b disjI1 [OF c] l r] t
  have "\<exists>out. promises (runUntil 6000 w1) p = Some (Settled out)" by blast
  with b c pend l t show ?thesis by blast
qed

section \<open>Joining from a render that holds a room\<close>

subsection \<open>The registry stays in good order\<close>

lemma coherent_createRoom:
  assumes "coherent reg" "createRoom now reg c cands = Some (r, reg')"
  shows "coherent reg'"
proof -
  have "synced reg'" unfolding createRoom_Some(2)[OF assms(2)] by (rule synced_persist)
  moreover have "uniqueRooms reg'" using assms by (auto simp: coherent_def intro: uniqueRooms_createRoom)
  moreover have "consistent reg'" using assms by (auto simp: coherent_def intro: consistent_createRoom)
  ultimately show ?thesis by (simp add: coherent_def)
qed

lemma coherent_clearAllRooms: "coherent (clearAllRooms reg)"
  by (simp add: coherent_def clearAllRooms_def uniqueRooms_def consistent_def getClientsInRoom_def
      synced_def load_def)

lemma coherent_executeCallback: "coherent (fst (executeCallback reg c kind)) = coherent reg"
  by (simp add: executeCallback_def coherent_def uniqueRooms_def consistent_def synced_def load_def
      getClientsInRoom_def split: option.splits)

lemma coherent_serverLeaveRoom:
  "coherent (server w) \<Longrightarrow> coherent (server (serverLeaveRoom w c))"
  by (simp add: serverLeaveRoom_frame coherent_leaveRoom)

lemma coherent_serverJoinRoom:
  "coherent (server w) \<Longrightarrow> coherent (server (snd (serverJoinRoom e w c v)))"
  by (cases v) (simp_all add: serverJoinRoom_frame coherent_joinRoom, simp_all add: serverJoinRoom_def)

lemma coherent_emit:
  assumes "emit e w c ev args = Some w'" "coherent (server w)"
  shows "coherent (server w')"
proof -
  have plain: "w' = recordEmit c ev args w \<Longrightarrow> ?thesis"
    using assms(2) by (simp add: recordEmit_frame)
  consider (cr) "ev = ''create-room''" | (jn) "ev = ''join-room''" | (lv) "ev = ''leave-room''"
    | (dr) "ev \<noteq> ''create-room''" "ev \<noteq> ''join-room''" "ev \<noteq> ''leave-room''"
    by blast
  then show ?thesis
  proof cases
    case cr
    show ?thesis
    proof (cases "lastArg args")
      case (JFun cb)
      from assms(1) cr JFun obtain r reg' where
        c: "createRoom (clock w) (registerCallback (server w) c ''create-room'' cb) c (roomCodes e) = Some (r, reg')"
        and w': "w' = recordEmit c ev args (setTimeout (ExecuteAck c ''create-room'' (JStr r)) 300 (w\<lparr>server := reg'\<rparr>))"
        by (auto simp: emit_def split: option.splits)
      have "coherent (registerCallback (server w) c ''create-room'' cb)"
        using assms(2) by (simp add: coherent_registerCallback)
      then have "coherent reg'" using c by (rule coherent_createRoom)
      then show ?thesis by (simp add: w' recordEmit_frame setTimeout_frame)
    qed (use assms(1) cr plain in \<open>auto simp: emit_def\<close>)
  next
    case jn
    show ?thesis
    proof (cases "lastArg args")
      case (JFun cb)
      let ?w1 = "w\<lparr>server := registerCallback (server w) c ''join-room'' cb\<rparr>"
      let ?w2 = "serverLeaveRoom ?w1 c"
      let ?w3 = "?w2\<lparr>server := loadPersistentRooms (server ?w2)\<rparr>"
      let ?res = "serverJoinRoom e ?w3 c (firstArg args)"
      from assms(1) jn JFun have w': "w' = recordEmit c ev args
          (setTimeout (ExecuteAck c ''join-room'' (JBool (fst ?res))) 300 (snd ?res))"
        by (auto simp: emit_def Let_def split: prod.splits)
      have "coherent (server ?w1)" using assms(2) by (simp add: coherent_registerCallback)
      then have c2: "coherent (server ?w2)" by (rule coherent_serverLeaveRoom)
      then have "coherent (server ?w3)" by (simp add: loadPersistentRooms_coherent)
      then have "coherent (server (snd ?res))" by (rule coherent_serverJoinRoom)
      then show ?thesis by (simp add: w' recordEmit_frame setTimeout_frame)
    qed (use assms(1) jn plain in \<open>auto simp: emit_def\<close>)
  next
    case lv
    with assms(1) have "w' = recordEmit c ev args (serverLeaveRoom w c)" by (simp add: emit_def)
    then show ?thesis using assms(2) by (simp add: recordEmit_frame coherent_serverLeaveRoom)
  next
    case dr
    with assms(1) have "server w' = server w"
      by (auto simp: emit_def Let_def recordEmit_frame broadcastToRoom_def emitServer_frame
          split: if_splits)
    then show ?thesis using assms(2) by simp
  qed
qed

lemma coherent_facadeLeaveRoom:
  assumes "facadeLeaveRoom e r w = Some w'" "coherent (server w)"
  shows "coherent (server w')"
proof (cases "socket r")
  case None
  with assms show ?thesis by (simp add: facadeLeaveRoom_def)
next
  case (Some c)
  show ?thesis
  proof (cases "jsTruthy (roomId r)")
    case True
    with assms(1) Some obtain w1 where e: "emit e w c ''leave-room'' [roomId r] = Some w1"
      and w': "w' = toast ''Left room'' (setRoomId JNull w1)"
      by (auto simp: facadeLeaveRoom_def)
    from e assms(2) have "coherent (server w1)" by (rule coherent_emit)
    then show ?thesis by (simp add: w' setters_frame)
  next
    case False
    with assms Some show ?thesis by (simp add: facadeLeaveRoom_def)
  qed
qed

lemma coherent_facadeCreateRoom:
  assumes "facadeCreateRoom e r w = Some (p, w')" "coherent (server w)"
  shows "coherent (server w')"
proof (cases "socket r")
  case None
  with assms show ?thesis by (auto simp: facadeCreateRoom_def newPromise_frame)
next
  case (Some c)
  let ?w3 = "setTimeout (CreateTimeout (nextPromise w)) 5000 (newPromise Pending (setIsConnecting True w))"
  from assms(1) Some obtain cb where "emit e ?w3 c ''create-room'' [JFun cb] = Some w'"
    by (auto simp: facadeCreateRoom_def Let_def setters_frame newPromise_frame)
  moreover have "coherent (server ?w3)"
    using assms(2) by (simp add: setTimeout_frame newPromise_frame setters_frame)
  ultimately show ?thesis by (rule coherent_emit)
qed

lemma coherent_clearedRoom: "coherent (server w) \<Longrightarrow> coherent (server (clearedRoom r w c))"
  by (simp add: clearedRoom_frame coherent_leaveRoom)

lemma coherent_facadeJoinRoom:
  assumes "facadeJoinRoom e r w s = Some (p, w')" "coherent (server w)"
  shows "coherent (server w')"
proof (cases "socket r")
  case None
  with assms show ?thesis by (auto simp: facadeJoinRoom_def newPromise_frame)
next
  case (Some c)
  let ?w2 = "clearedRoom r w c"
  have c2: "coherent (server ?w2)" using assms(2) by (rule coherent_clearedRoom)
  have first: "(if jsTruthy (roomId r) then facadeLeaveRoom e r (setIsConnecting True w)
          else Some (setIsConnecting True w)) = Some ?w2"
    using Some by (rule facadeLeaveRoom_first)
  have re: "roomExists (loadPersistentRooms (server ?w2)) s = (map_of (rooms (server ?w2)) s \<noteq> None, server ?w2)"
    using c2 by (rule roomExists_coherent)
  show ?thesis
  proof (cases "length s \<noteq> 6")
    case True
    from assms(1) show ?thesis
      unfolding facadeJoinRoom_malformed[OF Some True]
      using c2 by (auto simp: newPromise_frame setters_frame)
  next
    case False
    then have len: "length s = 6" "s \<noteq> []" by auto
    show ?thesis
    proof (cases "map_of (rooms (server ?w2)) s = None")
      case True
      with assms(1) Some len first re have
        "w' = newPromise (Settled (Resolved (JBool False)))
                (toast ''Room not found'' (setIsConnecting False (?w2\<lparr>server := server ?w2\<rparr>)))"
        by (simp add: facadeJoinRoom_def del: One_nat_def)
      then show ?thesis using c2 by (simp add: newPromise_frame setters_frame)
    next
      case False
      let ?w4 = "setTimeout (JoinTimeout (nextPromise ?w2)) 5000 (newPromise Pending (?w2\<lparr>server := server ?w2\<rparr>))"
      from assms(1) Some len first re False obtain cb where
        "emit e ?w4 c ''join-room'' [JStr s, JFun cb] = Some w'"
        by (auto simp: facadeJoinRoom_def Let_def simp del: One_nat_def)
      moreover have "coherent (server ?w4)"
        using c2 by (simp add: setTimeout_frame newPromise_frame)
      ultimately show ?thesis by (rule coherent_emit)
    qed
  qed
qed

lemma coherent_fire: "coherent (server w) \<Longrightarrow> coherent (server (fire w a))"
proof (cases a)
  case (ExecuteAck c kind v)
  assume "coherent (server w)"
  then have "coherent (fst (executeCallback (server w) c kind))" by (simp add: coherent_executeCallback)
  then show ?thesis using ExecuteAck
    by (cases "executeCallback (server w) c kind")
       (auto simp: fire_def server_runCallback split: option.splits)
qed (simp_all add: fire_def invokes_frame settle_frame setters_frame)

lemma coherent_runUntil: "coherent (server w) \<Longrightarrow> coherent (server (runUntil t w))"
proof (induction t w rule: runUntil.induct)
  case (1 t w)
  show ?case
  proof (cases "nextTimer t w")
    case None
    then show ?thesis using "1.prems" by (simp add: runUntil_None)
  next
    case (Some tm)
    have "coherent (server (fire (takeTimer tm w) (action tm)))"
      using "1.prems" by (intro coherent_fire) (simp add: takeTimer_frame)
    from "1.IH"[OF Some this] show ?thesis by (simp add: runUntil_Some[OF Some])
  qed
qed

lemma coherent_perform:
  assumes "perform e w x = Some w'" "coherent (server w)"
  shows "coherent (server w')"
proof (cases x)
  case (Init c)
  with assms show ?thesis
    by (auto simp: initSocket_def setSocket_def socketOn_def createMockSocket_def serverOn_def
        setTimeout_def split: option.splits)
next
  case (Create r)
  with assms show ?thesis by (auto intro: coherent_facadeCreateRoom)
next
  case (Join r s)
  with assms show ?thesis by (auto intro: coherent_facadeJoinRoom)
next
  case (Leave r)
  with assms show ?thesis by (auto intro: coherent_facadeLeaveRoom)
next
  case (Disconnect c)
  with assms show ?thesis by (auto simp: disconnect_frame split: option.splits)
next
  case Reset
  with assms show ?thesis
    by (auto simp: debugResetRooms_def setters_frame coherent_clearAllRooms)
next
  case (Wait t)
  with assms show ?thesis by (auto intro: coherent_runUntil)
qed

lemma coherent_performAll:
  "performAll e w xs = Some w' \<Longrightarrow> coherent (server w) \<Longrightarrow> coherent (server w')"
proof (induction xs arbitrary: w)
  case Nil
  then show ?case by simp
next
  case (Cons x xs)
  from Cons.prems(1) obtain w1 where s: "perform e w x = Some w1" and r: "performAll e w1 xs = Some w'"
    by (auto split: option.splits)
  from s Cons.prems(2) have "coherent (server w1)" by (rule coherent_perform)
  with r show ?case by (rule Cons.IH)
qed

lemma coherent_session: "performAll e initialWorld xs = Some w \<Longrightarrow> coherent (server w)"
  by (erule coherent_performAll) (simp add: initialWorld_def coherent_initial)

subsection \<open>The previous room is left first\<close>

lemma facadeJoinRoom_leaves_first:
  assumes co: "coherent (server w)"
    and sk: "socket r = Some c" and ex: "sockets w c \<noteq> None"
    and tr: "jsTruthy (roomId r)"
  shows "\<exists>p w'. facadeJoinRoom e r w s = Some (p, w') \<and>
           emitted w' c ''leave-room'' = emitted w c ''leave-room'' @ [[roomId r]] \<and>
           roomId (ui w') = JNull \<and>
           (length s \<noteq> 6 \<longrightarrow>
              promises w' p = Some (Settled (Resolved (JBool False))) \<and>
              getRoomForClient (server w') c = None) \<and>
           ((promises w' p = Some (Settled (Resolved (JBool False))) \<and>
             getRoomForClient (server w') c = None) \<or>
            (promises w' p = Some Pending \<and>
             (\<exists>b. action (last (timers w')) = ExecuteAck c ''join-room'' (JBool b) \<and>
                  getRoomForClient (server w') c = (if b then Some s else None))))"
proof -
  let ?w2 = "clearedRoom r w c"
  have lv: "emitted ?w2 c ''leave-room'' = emitted w c ''leave-room'' @ [[roomId r]]"
    using ex tr by (simp add: emitted_clearedRoom)
  have rid2: "roomId (ui ?w2) = JNull" using tr by (rule roomId_clearedRoom)
  have sv2: "server ?w2 = fst (leaveRoom (server w) c)" using tr by (simp add: clearedRoom_frame)
  have ix2: "clientRooms (server ?w2) c = None" by (simp add: sv2 clientRooms_leaveRoom)
  have co2: "coherent (server ?w2)"
    unfolding sv2 using co by (rule coherent_leaveRoom)
  have first: "(if jsTruthy (roomId r) then facadeLeaveRoom e r (setIsConnecting True w)
          else Some (setIsConnecting True w)) = Some ?w2"
    using sk by (rule facadeLeaveRoom_first)
  show ?thesis
  proof (cases "length s \<noteq> 6")
    case True
    let ?w' = "newPromise (Settled (Resolved (JBool False)))
                 (toast ''Invalid room code'' (setIsConnecting False ?w2))"
    have eq: "facadeJoinRoom e r w s = Some (nextPromise w, ?w')"
      using sk True by (rule facadeJoinRoom_malformed)
    have "emitted ?w' c ''leave-room'' = emitted ?w2 c ''leave-room''"
      by (rule emitted_sockets_cong) (simp add: newPromise_frame setters_frame)
    with lv have a: "emitted ?w' c ''leave-room'' = emitted w c ''leave-room'' @ [[roomId r]]"
      by simp
    have b: "roomId (ui ?w') = JNull" using rid2 by (simp add: newPromise_frame setters_frame)
    have p: "promises ?w' (nextPromise w) = Some (Settled (Resolved (JBool False)))"
      by (simp add: newPromise_frame setters_frame clearedRoom_frame)
    have g: "getRoomForClient (server ?w') c = None"
      using ix2 by (simp add: getRoomForClient_def newPromise_frame setters_frame)
    show ?thesis using eq a b p g by blast
  next
    case False
    then have len: "length s = 6" "s \<noteq> []" by auto
    obtain exists reg' where re: "roomExists (loadPersistentRooms (server ?w2)) s = (exists, reg')"
      by (cases "roomExists (loadPersistentRooms (server ?w2)) s")
    have rc: "reg' = server ?w2 \<and> exists = (map_of (rooms (server ?w2)) s \<noteq> None)"
    proof -
      have "roomExists (loadPersistentRooms (server ?w2)) s = (map_of (rooms (server ?w2)) s \<noteq> None, server ?w2)"
        using co2 by (rule roomExists_coherent)
      with re show ?thesis by auto
    qed
    show ?thesis
    proof (cases exists)
      case False
      let ?w' = "newPromise (Settled (Resolved (JBool False)))
                   (toast ''Room not found'' (setIsConnecting False (?w2\<lparr>server := reg'\<rparr>)))"
      have eq: "facadeJoinRoom e r w s = Some (nextPromise w, ?w')"
        using sk len False re first
        by (simp add: facadeJoinRoom_def clearedRoom_frame del: One_nat_def)
      have "emitted ?w' c ''leave-room'' = emitted ?w2 c ''leave-room''"
        by (rule emitted_sockets_cong) (simp add: newPromise_frame setters_frame)
      with lv have a: "emitted ?w' c ''leave-room'' = emitted w c ''leave-room'' @ [[roomId r]]"
        by simp
      have b: "roomId (ui ?w') = JNull" using rid2 by (simp add: newPromise_frame setters_frame)
      have p: "promises ?w' (nextPromise w) = Some (Settled (Resolved (JBool False)))"
        by (simp add: newPromise_frame setters_frame clearedRoom_frame)
      have g: "getRoomForClient (server ?w') c = None"
        using rc ix2 by (simp add: getRoomForClient_def newPromise_frame setters_frame)
      show ?thesis using eq a b p g len by blast
    next
      case True
      let ?p = "nextPromise w"
      let ?w3 = "newPromise Pending (?w2\<lparr>server := reg'\<rparr>)"
      let ?w4 = "setTimeout (JoinTimeout ?p) 5000 ?w3"
      let ?args = "[JStr s, JFun (JoinAck ?p (nextHandle ?w3) s)]"
      have eq: "facadeJoinRoom e r w s = map_option (Pair ?p) (emit e ?w4 c ''join-room'' ?args)"
        using sk len True re first
        by (simp add: facadeJoinRoom_def clearedRoom_frame Let_def del: One_nat_def)
      from emit_join_room_frame[of e ?w4 c "JStr s" "JoinAck ?p (nextHandle ?w3) s"]
      obtain w' b where em: "emit e ?w4 c ''join-room'' ?args = Some w'"
        and pr: "promises w' = promises ?w4"
        and emt: "\<And>c' ev. ev \<noteq> ''join-room'' \<Longrightarrow> emitted w' c' ev = emitted ?w4 c' ev"
        and rid: "roomId (ui ?w4) = JNull \<Longrightarrow> roomId (ui w') = JNull"
        and tm: "timers w' = timers ?w4 @ [\<lparr>handle = nextHandle ?w4, due = clock ?w4 + 300,
                                        action = ExecuteAck c ''join-room'' (JBool b)\<rparr>]"
        by blast
      have eq': "facadeJoinRoom e r w s = Some (?p, w')" using eq em by simp
      have "emitted ?w4 c ''leave-room'' = emitted ?w2 c ''leave-room''"
        by (rule emitted_sockets_cong) (simp add: newPromise_frame setTimeout_frame)
      with lv emt[of "''leave-room''" c]
      have a: "emitted w' c ''leave-room'' = emitted w c ''leave-room'' @ [[roomId r]]"
        by simp
      have "roomId (ui ?w4) = JNull" using rid2 by (simp add: newPromise_frame setTimeout_frame)
      then have bb: "roomId (ui w') = JNull" by (rule rid)
      have pp: "promises w' ?p = Some Pending"
        by (simp add: pr newPromise_frame setTimeout_frame clearedRoom_frame)
      have la: "action (last (timers w')) = ExecuteAck c ''join-room'' (JBool b)"
        by (simp add: tm)
      have g: "getRoomForClient (server w') c = (if b then Some s else None)"
      proof -
        from rc have r': "reg' = server ?w2" by simp
        have c4: "coherent (server ?w4)" using co2 by (simp add: setTimeout_frame newPromise_frame r')
        have i4: "clientRooms (server ?w4) c = None" using ix2 by (simp add: setTimeout_frame newPromise_frame r')
        from emit_join_room_unhoused[OF c4 i4, of e s "JoinAck ?p (nextHandle ?w3) s"]
        obtain w'' b' where em': "emit e ?w4 c ''join-room'' ?args = Some w''"
          and tm': "timers w'' = timers ?w4 @ [\<lparr>handle = nextHandle ?w4, due = clock ?w4 + 300,
                                     action = ExecuteAck c ''join-room'' (JBool b')\<rparr>]"
          and ix': "clientRooms (server w'') c = (if b' then Some s else None)"
          by blast
        from em em' have "w'' = w'" by simp
        with tm tm' have "b' = b" by simp
        with ix' \<open>w'' = w'\<close> show ?thesis by (simp add: getRoomForClient_def)
      qed
      show ?thesis using eq' a bb pp la g len by blast
    qed
  qed
qed

lemma scenario_session:
  "\<exists>w. performAll scenarioEnv initialWorld
         [Init ''u1'', Create (ui (initSocket ''u1'' initialWorld)), Wait 300] = Some w \<and>
       socket (ui w) = Some ''u1'' \<and> sockets w ''u1'' \<noteq> None \<and>
       roomId (ui w) = JStr ''AB12CD'' \<and>
       clientRooms (server w) = [''u1'' \<mapsto> ''AB12CD''] \<and>
       emitted w ''u1'' ''leave-room'' = []"
  by (simp add: facadeCreateRoom_def emit_create_room scenarioEnv_def initSocket_def setSocket_def
      socketOn_def createMockSocket_def serverOn_def setTimeout_def initialWorld_def
      initialRegistry_def createRoom_def removeClient_def registerCallback_def persist_def
      save_def recordEmit_def on_def setIsConnecting_def setIsConnected_def newPromise_def Let_def
      fire_def executeCallback_def runCallback_def clearTimeout_def setRoomId_def toast_def
      settle_def callbacksOf_def runUntil.simps nextTimer_def takeTimer_def forEachCallback_def
      visit_def invoke_def emitted_def)

text \<open>
  Claim C10, as amended. Take a world reached by any session from the initial world, and
  \<^verbatim>\<open>joinRoom(s)\<close> of a render that holds a socket of the page and a room identifier. The call
  emits \<^verbatim>\<open>leave-room\<close> with that identifier on the socket and clears the facade's room
  identifier before it looks at \<open>s\<close>. For a code of a length other than 6 the promise is
  resolved with \<open>false\<close> and the client is left in no room. Otherwise either the promise is
  resolved with \<open>false\<close> (the room does not exist) and the client is in no room, or the
  request is sent, and the client is in the room \<open>s\<close> if the acknowledgement scheduled is
  \<open>true\<close> and in no room if it is \<open>false\<close>.
\<close>

theorem facade_join_leaves_previous_room_first:
  assumes "performAll e initialWorld before = Some w"
    and "socket r = Some c" and "sockets w c \<noteq> None"
    and "jsTruthy (roomId r)"
  shows "\<exists>p w'. facadeJoinRoom e r w s = Some (p, w') \<and>
           emitted w' c ''leave-room'' = emitted w c ''leave-room'' @ [[roomId r]] \<and>
           roomId (ui w') = JNull \<and>
           (length s \<noteq> 6 \<longrightarrow>
              promises w' p = Some (Settled (Resolved (JBool False))) \<and>
              getRoomForClient (server w') c = None) \<and>
           ((promises w' p = Some (Settled (Resolved (JBool False))) \<and>
             getRoomForClient (server w') c = None) \<or>
            (promises w' p = Some Pending \<and>
             (\<exists>b. action (last (timers w')) = ExecuteAck c ''join-room'' (JBool b) \<and>
                  getRoomForClient (server w') c = (if b then Some s else None))))"
  using coherent_session[OF assms(1)] assms(2,3,4) by (rule facadeJoinRoom_leaves_first)

theorem facade_join_leaves_previous_room_first_witness:
  "\<exists>w. performAll scenarioEnv initialWorld
         [Init ''u1'', Create (ui (initSocket ''u1'' initialWorld)), Wait 300] = Some w \<and>
     socket (ui w) = Some ''u1'' \<and> sockets w ''u1'' \<noteq> None \<and>
     roomId (ui w) = JStr ''AB12CD'' \<and>
     getRoomForClient (server w) ''u1'' = Some ''AB12CD'' \<and>
     (\<exists>p w'. facadeJoinRoom scenarioEnv (ui w) w ''XYZ'' = Some (p, w') \<and>
        emitted w' ''u1'' ''leave-room'' = [[JStr ''AB12CD'']] \<and>
        roomId (ui w') = JNull \<and>
        promises w' p = Some (Settled (Resolved (JBool False))) \<and>
        getRoomForClient (server w') ''u1'' = None)"
proof -
  from scenario_session obtain w where
    b: "performAll scenarioEnv initialWorld
         [Init ''u1'', Create (ui (initSocket ''u1'' initialWorld)), Wait 300] = Some w"
    and sk: "socket (ui w) = Some ''u1''"
    and ex: "sockets w ''u1'' \<noteq> None"
    and rid: "roomId (ui w) = JStr ''AB12CD''"
    and ix: "clientRooms (server w) = [''u1'' \<mapsto> ''AB12CD'']"
    and em: "emitted w ''u1'' ''leave-room'' = []"
    by blast
  have tr: "jsTruthy (roomId (ui w))" by (simp add: rid)
  have len: "length ''XYZ'' \<noteq> 6" by simp
  from facade_join_leaves_previous_room_first [OF b sk ex tr, of "''XYZ''"] len
  obtain p w' where j: "facadeJoinRoom scenarioEnv (ui w) w ''XYZ'' = Some (p, w')"
    and l: "emitted w' ''u1'' ''leave-room'' = emitted w ''u1'' ''leave-room'' @ [[roomId (ui w)]]"
    and n: "roomId (ui w') = JNull"
    and pr: "promises w' p = Some (Settled (Resolved (JBool False)))"
    and g: "getRoomForClient (server w') ''u1'' = None"
    by blast
  have l': "emitted w' ''u1'' ''leave-room'' = [[JStr ''AB12CD'']]" using l by (simp add: em rid)
  have g0: "getRoomForClient (server w) ''u1'' = Some ''AB12CD''"
    by (simp add: getRoomForClient_def ix)
  show ?thesis
  proof (intro exI conjI)
    show "performAll scenarioEnv initialWorld
         [Init ''u1'', Create (ui (initSocket ''u1'' initialWorld)), Wait 300] = Some w" by (rule b)
  qed (rule sk ex rid g0 j l' n pr g)+
qed

text \<open>
  Claim C10 as stated fails: \<^verbatim>\<open>joinRoom\<close> tests the \<^verbatim>\<open>roomId\<close> of the render that defined it,
  not the room identifier that the facade holds when it is called. The render made after
  the socket was set holds no room; \<^verbatim>\<open>createRoom\<close> of that render is acknowledged, and the
  facade now holds AB12CD. \<^verbatim>\<open>joinRoom('XYZ')\<close> of the same render emits no \<^verbatim>\<open>leave-room\<close>,
  and the facade and the registry keep the room.
\<close>

theorem facade_join_stale_render_counterexample:
  "\<exists>w p w'. performAll scenarioEnv initialWorld
         [Init ''u1'', Create (ui (initSocket ''u1'' initialWorld)), Wait 300] = Some w \<and>
     socket (ui (initSocket ''u1'' initialWorld)) = Some ''u1'' \<and>
     roomId (ui (initSocket ''u1'' initialWorld)) = JNull \<and>
     roomId (ui w) = JStr ''AB12CD'' \<and>
     getRoomForClient (server w) ''u1'' = Some ''AB12CD'' \<and>
     facadeJoinRoom scenarioEnv (ui (initSocket ''u1'' initialWorld)) w ''XYZ'' = Some (p, w') \<and>
     promises w' p = Some (Settled (Resolved (JBool False))) \<and>
     emitted w' ''u1'' ''leave-room'' = [] \<and>
     roomId (ui w') = JStr ''AB12CD'' \<and>
     getRoomForClient (server w') ''u1'' = Some ''AB12CD''"
proof -
  let ?r = "ui (initSocket ''u1'' initialWorld)"
  from scenario_session obtain w where
    b: "performAll scenarioEnv initialWorld
         [Init ''u1'', Create (ui (initSocket ''u1'' initialWorld)), Wait 300] = Some w"
    and rid: "roomId (ui w) = JStr ''AB12CD''"
    and ix: "clientRooms (server w) = [''u1'' \<mapsto> ''AB12CD'']"
    and em: "emitted w ''u1'' ''leave-room'' = []"
    by blast
  have sk: "socket ?r = Some ''u1''" and rn: "roomId ?r = JNull"
    by (simp_all add: initSocket_def setSocket_def socketOn_def createMockSocket_def serverOn_def
        setTimeout_def initialWorld_def split: option.splits)
  have len: "length ''XYZ'' \<noteq> 6" by simp
  let ?w' = "newPromise (Settled (Resolved (JBool False)))
               (toast ''Invalid room code'' (setIsConnecting False (clearedRoom ?r w ''u1'')))"
  have j: "facadeJoinRoom scenarioEnv ?r w ''XYZ'' = Some (nextPromise w, ?w')"
    using sk len by (rule facadeJoinRoom_malformed)
  have cl: "clearedRoom ?r w ''u1'' = setIsConnecting True w"
    by (simp add: clearedRoom_def rn)
  have pr: "promises ?w' (nextPromise w) = Some (Settled (Resolved (JBool False)))"
    by (simp add: newPromise_frame setters_frame cl)
  have "emitted ?w' ''u1'' ''leave-room'' = emitted w ''u1'' ''leave-room''"
    unfolding cl by (rule emitted_sockets_cong) (simp add: newPromise_frame setters_frame)
  then have l: "emitted ?w' ''u1'' ''leave-room'' = []" by (simp add: em)
  have r': "roomId (ui ?w') = JStr ''AB12CD''"
    by (simp add: cl newPromise_frame setters_frame rid)
  have g0: "getRoomForClient (server w) ''u1'' = Some ''AB12CD''"
    by (simp add: getRoomForClient_def ix)
  have g: "getRoomForClient (server ?w') ''u1'' = Some ''AB12CD''"
    by (simp add: cl newPromise_frame setters_frame getRoomForClient_def ix)
  show ?thesis
  proof (intro exI conjI)
    show "performAll scenarioEnv initialWorld
         [Init ''u1'', Create (ui (initSocket ''u1'' initialWorld)), Wait 300] = Some w" by (rule b)
    show "facadeJoinRoom scenarioEnv ?r w ''XYZ'' = Some (nextPromise w, ?w')" by (rule j)
  qed (rule sk rn rid g0 pr l r' g)+
qed

end
